theory Spec2Isabelle
  imports Main "HOL-Library.AList" "HOL-Library.Word"
begin

section \<open>Values exchanged with the Immich service\<close>

text \<open>
  Decoded JSON, as \<open>response.json()\<close> hands it to the hub. An object is an association
  list in the order of its keys (Python dictionaries keep insertion order); its keys are
  distinct. Numbers are modelled by integers: no operation of the integration looks at
  the value of a number. \<open>JNull\<close> is Python's \<open>None\<close>: it is what \<open>response.json()\<close>
  returns for the body \<open>null\<close> and for an empty body.
\<close>

datatype json =
    JNull
  | JBool bool
  | JInt int
  | JStr string
  | JList "json list"
  | JDict "(string \<times> json) list"

type_synonym dict = "(string \<times> json) list"

type_synonym bytes = "8 word list"

text \<open>
  The exceptions that the two modules can let escape. \<open>CannotConnect\<close> and \<open>ApiError\<close>
  are the hub's own classes; \<open>ClientError\<close> is an \<open>aiohttp.ClientError\<close> that no
  handler caught; the others are Python's built-in exceptions.
\<close>

datatype error =
    CannotConnect
  | ApiError
  | ClientError
  | AttributeError
  | KeyError
  | TypeError
  | IllTyped

text \<open>
  \<open>IllTyped\<close> is not a Python exception. The refresh capability is declared to return
  \<open>list[str]\<close>, and the source never checks that an asset's \<open>id\<close> is a string. Where a
  value of another JSON type would enter that list, the model stops with \<open>IllTyped\<close>
  instead of following Python further; no theorem below draws a conclusion from it.
\<close>

text \<open>
  One HTTP exchange, seen from inside the \<open>async with\<close> blocks of the hub: either
  aiohttp raised a \<open>ClientError\<close> somewhere in the exchange (connecting, sending, or
  reading the body), or a response arrived and its body was read as a value of type
  \<open>'b\<close> (\<open>await response.read()\<close> for the download, \<open>await response.json()\<close>
  elsewhere).
\<close>

datatype 'b exchange =
    Failed
  | Response (status: int) (content_type: string) (body: 'b)

subsection \<open>Python's view of JSON values\<close>

text \<open>Truth value of a decoded JSON value (\<open>not x\<close>, \<open>x or y\<close>).\<close>

fun truthy :: "json \<Rightarrow> bool" where
  "truthy JNull = False"
| "truthy (JBool b) = b"
| "truthy (JInt i) = (i \<noteq> 0)"
| "truthy (JStr s) = (s \<noteq> [])"
| "truthy (JList xs) = (xs \<noteq> [])"
| "truthy (JDict kvs) = (kvs \<noteq> [])"

text \<open>\<open>x or ""\<close>.\<close>

definition or_empty :: "json \<Rightarrow> json" where
  "or_empty v = (if truthy v then v else JStr [])"

text \<open>Sequencing of steps that may raise: the first exception ends the computation.\<close>

definition and_then :: "error + 'a \<Rightarrow> ('a \<Rightarrow> error + 'b) \<Rightarrow> error + 'b" where
  "and_then r f = (case r of Inl e \<Rightarrow> Inl e | Inr v \<Rightarrow> f v)"

text \<open>
  \<open>needle in haystack\<close> on two strings: the needle occurs as a contiguous run.
\<close>

fun starts_with :: "string \<Rightarrow> string \<Rightarrow> bool" where
  "starts_with [] s = True"
| "starts_with (c # cs) [] = False"
| "starts_with (c # cs) (d # ds) = (c = d \<and> starts_with cs ds)"

fun str_contains :: "string \<Rightarrow> string \<Rightarrow> bool" where
  "str_contains needle [] = (needle = [])"
| "str_contains needle (d # ds) = (starts_with needle (d # ds) \<or> str_contains needle ds)"

text \<open>
  \<open>k in data\<close> for a string \<open>k\<close>: key membership on a dictionary, element membership
  on a list, substring test on a string; \<open>None\<close>, booleans and numbers are not
  iterable and raise \<open>TypeError\<close>.
\<close>

fun py_in :: "string \<Rightarrow> json \<Rightarrow> error + bool" where
  "py_in k (JDict kvs) = Inr (k \<in> set (map fst kvs))"
| "py_in k (JList xs) = Inr (JStr k \<in> set xs)"
| "py_in k (JStr s) = Inr (str_contains k s)"
| "py_in k JNull = Inl TypeError"
| "py_in k (JBool b) = Inl TypeError"
| "py_in k (JInt i) = Inl TypeError"

text \<open>
  \<open>data[k]\<close> for a string \<open>k\<close>: \<open>KeyError\<close> on a dictionary without the key;
  \<open>TypeError\<close> on everything that is not a dictionary (lists and strings take
  integer indices, the rest is not subscriptable).
\<close>

fun py_item :: "json \<Rightarrow> string \<Rightarrow> error + json" where
  "py_item (JDict kvs) k = (case map_of kvs k of None \<Rightarrow> Inl KeyError | Some v \<Rightarrow> Inr v)"
| "py_item JNull k = Inl TypeError"
| "py_item (JBool b) k = Inl TypeError"
| "py_item (JInt i) k = Inl TypeError"
| "py_item (JStr s) k = Inl TypeError"
| "py_item (JList xs) k = Inl TypeError"

text \<open>
  \<open>a.get(k, default)\<close>: only dictionaries have the method; on any other value the
  attribute lookup raises \<open>AttributeError\<close>.
\<close>

fun py_get :: "json \<Rightarrow> string \<Rightarrow> json \<Rightarrow> error + json" where
  "py_get (JDict kvs) k dflt = Inr (case map_of kvs k of None \<Rightarrow> dflt | Some v \<Rightarrow> v)"
| "py_get JNull k dflt = Inl AttributeError"
| "py_get (JBool b) k dflt = Inl AttributeError"
| "py_get (JInt i) k dflt = Inl AttributeError"
| "py_get (JStr s) k dflt = Inl AttributeError"
| "py_get (JList xs) k dflt = Inl AttributeError"

text \<open>
  \<open>for a in v\<close>: a list yields its elements, a string its characters (as strings of
  length one), a dictionary its keys; the rest is not iterable.
\<close>

fun py_iter :: "json \<Rightarrow> error + json list" where
  "py_iter (JList xs) = Inr xs"
| "py_iter (JStr s) = Inr (map (\<lambda>c. JStr [c]) s)"
| "py_iter (JDict kvs) = Inr (map (\<lambda>kv. JStr (fst kv)) kvs)"
| "py_iter JNull = Inl TypeError"
| "py_iter (JBool b) = Inl TypeError"
| "py_iter (JInt i) = Inl TypeError"

text \<open>
  \<open>str.lower()\<close> on the ASCII range: the letters A to Z are mapped to a to z, every
  other byte is kept. Only strings have the method.
\<close>

definition lower_char :: "char \<Rightarrow> char" where
  "lower_char c =
     (let n = (of_char c :: nat) in if 65 \<le> n \<and> n \<le> 90 then char_of (n + 32) else c)"

definition lower :: "string \<Rightarrow> string" where
  "lower s = map lower_char s"

fun py_lower :: "json \<Rightarrow> error + string" where
  "py_lower (JStr s) = Inr (lower s)"
| "py_lower JNull = Inl AttributeError"
| "py_lower (JBool b) = Inl AttributeError"
| "py_lower (JInt i) = Inl AttributeError"
| "py_lower (JList xs) = Inl AttributeError"
| "py_lower (JDict kvs) = Inl AttributeError"

fun is_list :: "json \<Rightarrow> bool" where
  "is_list (JList xs) = True"
| "is_list v = False"

fun is_dict :: "json \<Rightarrow> bool" where
  "is_dict (JDict kvs) = True"
| "is_dict v = False"

text \<open>
  \<open>{**a, **b}\<close>: the keys of \<open>a\<close> keep their places and take the values of \<open>b\<close>
  where \<open>b\<close> has them; the new keys of \<open>b\<close> follow in the order of \<open>b\<close>.
\<close>

definition dict_merge :: "dict \<Rightarrow> dict \<Rightarrow> dict" where
  "dict_merge a b = foldl (\<lambda>d kv. AList.update (fst kv) (snd kv) d) a b"

section \<open>The hub (hub.py)\<close>

definition ALLOWED_MIME_TYPES :: "string list" where
  "ALLOWED_MIME_TYPES = [''image/png'', ''image/jpeg'']"

text \<open>
  \<open>ImmichHub.get_asset_info\<close>, declared \<open>dict | None\<close>. The annotation
  \<open>asset_info: dict\<close> checks nothing at run time: the method returns whatever the body
  decodes to, \<open>None\<close> (\<open>JNull\<close>) included.
\<close>

definition get_asset_info :: "json exchange \<Rightarrow> error + json" where
  "get_asset_info x =
     (case x of
        Failed \<Rightarrow> Inl CannotConnect
      | Response st ct asset_info \<Rightarrow>
          if st \<noteq> 200 then Inl ApiError
          else Inr asset_info)"

text \<open>\<open>ImmichHub.download_asset\<close>, declared \<open>bytes | None\<close>.\<close>

definition download_asset :: "bytes exchange \<Rightarrow> error + bytes option" where
  "download_asset x =
     (case x of
        Failed \<Rightarrow> Inl CannotConnect
      | Response st ct content \<Rightarrow>
          if st \<noteq> 200 then Inr None
          else if ct \<notin> set ALLOWED_MIME_TYPES then Inr None
          else Inr (Some content))"

text \<open>
  \<open>ImmichHub.search_images\<close>. The parameter \<open>post\<close> is the metadata-search endpoint:
  the exchange that answers a posted JSON payload. The method has no handler for
  \<open>aiohttp.ClientError\<close>, so a failed exchange escapes as it is.
\<close>

definition allowed :: "string list" where
  "allowed = [''image/jpeg'', ''image/jpg'', ''image/png'', ''image/webp'', ''image/heic'',
              ''image/heif'']"

definition full_payload :: "dict \<Rightarrow> dict" where
  "full_payload payload = dict_merge [(''type'', JStr ''IMAGE''), (''size'', JInt 400)] payload"

text \<open>
  \<open>_mtype\<close>: the inner \<open>get\<close> is the default of the outer one, so \<open>originalMimeType\<close>
  wins whenever the key is present.
\<close>

definition mtype :: "json \<Rightarrow> error + string" where
  "mtype asset =
     and_then (py_get asset ''mimeType'' (JStr []))
       (\<lambda>legacy. and_then (py_get asset ''originalMimeType'' legacy) py_lower)"

text \<open>The condition of the final comprehension; \<open>and\<close> evaluates \<open>_mtype\<close> only for IMAGE entries.\<close>

definition keeps :: "json \<Rightarrow> error + bool" where
  "keeps a =
     and_then (py_get a ''type'' JNull)
       (\<lambda>t. if t = JStr ''IMAGE'' then and_then (mtype a) (\<lambda>m. Inr (m \<in> set allowed))
            else Inr False)"

fun keep_images :: "json list \<Rightarrow> error + json list" where
  "keep_images [] = Inr []"
| "keep_images (a # as) =
     and_then (keeps a)
       (\<lambda>k. and_then (keep_images as) (\<lambda>rest. Inr (if k then a # rest else rest)))"

text \<open>
  The tolerant extractor: \<open>Inr (Some assets)\<close> when one of the two branches binds
  \<open>assets\<close>, \<open>Inr None\<close> in the \<open>else\<close> branch, an exception when a test raises.
\<close>

definition extract_assets :: "json \<Rightarrow> error + json option" where
  "extract_assets data =
     and_then (py_in ''items'' data) (\<lambda>has_items.
     and_then (if has_items then and_then (py_item data ''items'') (\<lambda>v. Inr (is_list v))
               else Inr False) (\<lambda>flat.
       if flat then and_then (py_item data ''items'') (\<lambda>v. Inr (Some v))
       else
         and_then (py_in ''assets'' data) (\<lambda>has_assets.
         and_then (if has_assets then and_then (py_item data ''assets'') (\<lambda>v. Inr (is_dict v))
                   else Inr False) (\<lambda>nested.
           if nested
           then and_then (py_item data ''assets'')
                  (\<lambda>inner. and_then (py_get inner ''items'' (JList [])) (\<lambda>v. Inr (Some v)))
           else Inr None))))"

definition search_images :: "(dict \<Rightarrow> json exchange) \<Rightarrow> dict \<Rightarrow> error + json list" where
  "search_images post payload =
     (case post (full_payload payload) of
        Failed \<Rightarrow> Inl ClientError
      | Response st ct data \<Rightarrow>
          if st \<noteq> 200 then Inl ApiError
          else
            and_then (extract_assets data) (\<lambda>found.
              case found of
                None \<Rightarrow> Inr []
              | Some assets \<Rightarrow> and_then (py_iter assets) keep_images))"

text \<open>
  \<open>ImmichHub.list_favorite_images\<close>: the \<open>try\<close> block catches \<open>aiohttp.ClientError\<close>
  only, so a lookup that fails on the decoded body escapes as the built-in exception.
\<close>

fun keep_type_image :: "json list \<Rightarrow> error + json list" where
  "keep_type_image [] = Inr []"
| "keep_type_image (asset # assets) =
     and_then (py_item asset ''type'')
       (\<lambda>t. and_then (keep_type_image assets)
          (\<lambda>rest. Inr (if t = JStr ''IMAGE'' then asset # rest else rest)))"

definition list_favorite_images :: "json exchange \<Rightarrow> error + json list" where
  "list_favorite_images x =
     (case x of
        Failed \<Rightarrow> Inl CannotConnect
      | Response st ct favorites \<Rightarrow>
          if st \<noteq> 200 then Inl ApiError
          else
            and_then (py_item favorites ''assets'') (\<lambda>inner.
            and_then (py_item inner ''items'') (\<lambda>assets.
            and_then (py_iter assets) keep_type_image)))"

text \<open>\<open>ImmichHub.list_album_images\<close>.\<close>

definition list_album_images :: "json exchange \<Rightarrow> error + json list" where
  "list_album_images x =
     (case x of
        Failed \<Rightarrow> Inl CannotConnect
      | Response st ct album_info \<Rightarrow>
          if st \<noteq> 200 then Inl ApiError
          else
            and_then (py_item album_info ''assets'') (\<lambda>assets.
            and_then (py_iter assets) keep_type_image))"

text \<open>
  The endpoints that the candidate lists come from: the metadata search answering a
  JSON payload, the same endpoint answering the favorites form, and the album detail
  answering an album ID.
\<close>

record server =
  post_search_metadata :: "dict \<Rightarrow> json exchange"
  post_favorites :: "json exchange"
  get_album :: "string \<Rightarrow> json exchange"

section \<open>The image entities (image.py)\<close>

subsection \<open>The three classes and their candidate lists\<close>

text \<open>
  The three subclasses of \<open>BaseImmichImage\<close>, each with what its constructor stores:
  \<open>ImmichImageAlbum\<close> keeps \<open>_album_id\<close>, \<open>ImmichImageSearch\<close> keeps
  \<open>_search_payload\<close>.
\<close>

datatype image_class =
    ImmichImageFavorite
  | ImmichImageAlbum string
  | ImmichImageSearch dict

text \<open>
  Reading \<open>self._search_payload\<close>: only \<open>ImmichImageSearch.__init__\<close> sets the
  attribute, and the base class declares no default for it.
\<close>

fun search_payload_attr :: "image_class \<Rightarrow> error + dict" where
  "search_payload_attr (ImmichImageSearch payload) = Inr payload"
| "search_payload_attr ImmichImageFavorite = Inl AttributeError"
| "search_payload_attr (ImmichImageAlbum album_id) = Inl AttributeError"

text \<open>\<open>a["id"]\<close> as an element of the declared \<open>list[str]\<close>.\<close>

definition item_id :: "json \<Rightarrow> error + string" where
  "item_id a =
     and_then (py_item a ''id'') (\<lambda>v. case v of JStr s \<Rightarrow> Inr s | _ \<Rightarrow> Inl IllTyped)"

fun ids_of :: "json list \<Rightarrow> error + string list" where
  "ids_of [] = Inr []"
| "ids_of (a # as) =
     and_then (item_id a) (\<lambda>i. and_then (ids_of as) (\<lambda>rest. Inr (i # rest)))"

text \<open>
  \<open>BaseImmichImage._refresh_available_asset_ids\<close>: the argument \<open>self._search_payload\<close>
  is evaluated before \<open>search_images\<close> is called.
\<close>

definition base_refresh_available_asset_ids :: "server \<Rightarrow> image_class \<Rightarrow> error + string list" where
  "base_refresh_available_asset_ids srv self =
     and_then (search_payload_attr self) (\<lambda>payload.
     and_then (search_images (post_search_metadata srv) payload) ids_of)"

text \<open>\<open>ImmichImageFavorite._refresh_available_asset_ids\<close>.\<close>

definition favorite_refresh_available_asset_ids :: "server \<Rightarrow> error + string list" where
  "favorite_refresh_available_asset_ids srv =
     and_then (list_favorite_images (post_favorites srv)) ids_of"

text \<open>
  \<open>ImmichImageSearch._refresh_available_asset_ids\<close>. \<open>one\<close> is the inner coroutine
  \<open>_one\<close>. \<open>asyncio.gather\<close> returns the results in the order of its arguments, or
  raises; the model takes the first exception in that order (which exception surfaces
  when several sub-searches fail depends on timing, and is not used below). The
  iteration order of the Python set \<open>all_ids\<close> is unspecified: \<open>remdups\<close> fixes one
  order, and the properties below speak of the elements only.
\<close>

definition one :: "server \<Rightarrow> dict \<Rightarrow> json \<Rightarrow> error + json list" where
  "one srv search_payload pid =
     (let base = filter (\<lambda>kv. fst kv \<noteq> ''personIds'') search_payload;
          payload = dict_merge base [(''personIds'', JList [pid])]
      in search_images (post_search_metadata srv) payload)"

fun gather :: "(error + 'a) list \<Rightarrow> error + 'a list" where
  "gather [] = Inr []"
| "gather (r # rs) = and_then r (\<lambda>v. and_then (gather rs) (\<lambda>vs. Inr (v # vs)))"

definition search_refresh_available_asset_ids :: "server \<Rightarrow> dict \<Rightarrow> error + string list" where
  "search_refresh_available_asset_ids srv search_payload =
     and_then (py_item (JDict search_payload) ''personIds'') (\<lambda>person_ids.
     and_then (py_iter person_ids) (\<lambda>pids.
     and_then (gather (map (one srv search_payload) pids)) (\<lambda>results.
     and_then (ids_of (concat results)) (\<lambda>all_ids.
       Inr (remdups all_ids)))))"

text \<open>
  Method resolution: \<open>ImmichImageFavorite\<close> and \<open>ImmichImageSearch\<close> override the
  method; \<open>ImmichImageAlbum\<close> defines only \<open>__init__\<close> and inherits the base method.
\<close>

fun refresh_available_asset_ids :: "server \<Rightarrow> image_class \<Rightarrow> error + string list" where
  "refresh_available_asset_ids srv ImmichImageFavorite = favorite_refresh_available_asset_ids srv"
| "refresh_available_asset_ids srv (ImmichImageAlbum album_id) =
     base_refresh_available_asset_ids srv (ImmichImageAlbum album_id)"
| "refresh_available_asset_ids srv (ImmichImageSearch search_payload) =
     search_refresh_available_asset_ids srv search_payload"

subsection \<open>The polling entity\<close>

text \<open>
  A \<open>datetime\<close> is a count of microseconds; \<open>timedelta(hours=8)\<close> is the refresh
  interval.
\<close>

definition ID_LIST_REFRESH_INTERVAL :: int where
  "ID_LIST_REFRESH_INTERVAL = 8 * 3600 * 1000000"

text \<open>The fields of \<open>BaseImmichImage\<close> that the update cycle reads and writes.\<close>

record image_entity =
  current_image_bytes :: "bytes option"
  cached_available_asset_ids :: "string list option"
  available_asset_ids_last_updated :: "int option"
  attr_extra_state_attributes :: dict
  attr_image_last_updated :: "int option"

text \<open>
  What the entity does to the outside, in the order it does it, most recent first:
  reading the clock (\<open>datetime.now()\<close>), invoking the refresh capability, drawing
  with \<open>random.choice\<close>, the two hub calls with their asset ID, \<open>asyncio.sleep\<close>
  with its delay in seconds, and \<open>async_write_ha_state\<close>.
\<close>

datatype event =
    ClockRead
  | RefreshCalled
  | RandomChoice
  | DownloadCalled string
  | Slept nat
  | AssetInfoCalled string
  | StateWritten

text \<open>
  The outside, as a function of what has happened so far: the clock, the refresh
  capability of the concrete class (\<open>list[str] | None\<close>, or an exception), the index
  drawn by \<open>random.choice\<close> for a sequence of the given length, and the service's
  answers to the download and to the asset-information request for an asset ID.
\<close>

record env =
  datetime_now :: "event list \<Rightarrow> int"
  refresh :: "event list \<Rightarrow> error + string list option"
  randbelow :: "event list \<Rightarrow> nat \<Rightarrow> nat"
  original :: "event list \<Rightarrow> string \<Rightarrow> bytes exchange"
  asset :: "event list \<Rightarrow> string \<Rightarrow> json exchange"

text \<open>
  The second half of \<open>BaseImmichImage._get_next_asset_id\<close> (from
  \<open>if not self._cached_available_asset_ids\<close> on): \<open>None\<close> for a missing or empty
  list, otherwise \<open>random.choice\<close>, which indexes the list with a draw below its
  length (the draw is reduced modulo the length, so that any function can stand for the
  generator).
\<close>

definition select_cached ::
  "env \<Rightarrow> image_entity \<times> event list \<Rightarrow> (error + string option) \<times> image_entity \<times> event list"
where
  "select_cached env \<sigma> =
     (case cached_available_asset_ids (fst \<sigma>) of
        None \<Rightarrow> (Inr None, \<sigma>)
      | Some ids \<Rightarrow>
          if ids = [] then (Inr None, \<sigma>)
          else (Inr (Some (ids ! (randbelow env (snd \<sigma>) (length ids) mod length ids))),
                fst \<sigma>, RandomChoice # snd \<sigma>))"

text \<open>
  \<open>BaseImmichImage._get_next_asset_id\<close>. A \<open>datetime\<close> is never false, so the first
  test asks whether the timestamp is \<open>None\<close>; \<open>or\<close> reads the clock only when it is
  not. The timestamp is the clock read after the refresh has returned; a refresh that
  raises leaves both fields as they were.
\<close>

definition get_next_asset_id ::
  "env \<Rightarrow> image_entity \<times> event list \<Rightarrow> (error + string option) \<times> image_entity \<times> event list"
where
  "get_next_asset_id env \<sigma> =
     (let self = fst \<sigma>; h = snd \<sigma>;
          stale = (case available_asset_ids_last_updated self of
                     None \<Rightarrow> True
                   | Some t \<Rightarrow> datetime_now env h - t > ID_LIST_REFRESH_INTERVAL);
          h1 = (case available_asset_ids_last_updated self of
                  None \<Rightarrow> h
                | Some t \<Rightarrow> ClockRead # h)
      in if stale then
           (case refresh env h1 of
              Inl e \<Rightarrow> (Inl e, self, RefreshCalled # h1)
            | Inr ids \<Rightarrow>
                select_cached env
                  (self\<lparr>cached_available_asset_ids := ids,
                        available_asset_ids_last_updated :=
                          Some (datetime_now env (RefreshCalled # h1))\<rparr>,
                   ClockRead # RefreshCalled # h1))
         else select_cached env (self, h1))"

text \<open>
  One of the three assignments
  \<open>self._attr_extra_state_attributes[attr] = asset_info.get(key) or ""\<close>: the \<open>get\<close>
  raises \<open>AttributeError\<close> when \<open>asset_info\<close> is not a dictionary, and then nothing is
  stored.
\<close>

definition set_attribute :: "json \<Rightarrow> string \<Rightarrow> string \<Rightarrow> dict \<Rightarrow> error + dict" where
  "set_attribute asset_info attr key attrs =
     and_then (py_get asset_info key JNull) (\<lambda>v. Inr (AList.update attr (or_empty v) attrs))"

text \<open>
  One pass through the body of the \<open>while\<close> loop of
  \<open>BaseImmichImage._load_and_cache_next_image\<close>: it raises, or the method returns
  (at the \<open>return\<close> for a missing asset ID, or because \<open>asset_bytes\<close> is now set and
  the loop condition fails), or it reaches \<open>continue\<close> after the sleep. The three
  attributes are assigned one after the other, so an assignment that raises keeps the
  earlier ones.
\<close>

datatype outcome = Raised error | Returned | Retry

definition loop_body :: "env \<Rightarrow> image_entity \<times> event list \<Rightarrow> outcome \<times> image_entity \<times> event list"
where
  "loop_body env \<sigma> =
     (case get_next_asset_id env \<sigma> of
        (Inl e, \<sigma>1) \<Rightarrow> (Raised e, \<sigma>1)
      | (Inr next, self, h1) \<Rightarrow>
          (case next of
             None \<Rightarrow> (Returned, self, h1)
           | Some asset_id \<Rightarrow>
               if asset_id = [] then (Returned, self, h1)
               else
                 let h2 = DownloadCalled asset_id # h1 in
                 (case download_asset (original env h1 asset_id) of
                    Inl e \<Rightarrow> (Raised e, self, h2)
                  | Inr asset_bytes \<Rightarrow>
                      if asset_bytes = None \<or> asset_bytes = Some [] then (Retry, self, Slept 1 # h2)
                      else
                        let h3 = AssetInfoCalled asset_id # h2 in
                        (case get_asset_info (asset env h2 asset_id) of
                           Inl e \<Rightarrow> (Raised e, self, h3)
                         | Inr asset_info \<Rightarrow>
                             (case set_attribute asset_info ''media_filename'' ''originalFileName''
                                     (attr_extra_state_attributes self) of
                                Inl e \<Rightarrow> (Raised e, self, h3)
                              | Inr attrs1 \<Rightarrow>
                             (case set_attribute asset_info ''media_exif'' ''exifInfo'' attrs1 of
                                Inl e \<Rightarrow>
                                  (Raised e, self\<lparr>attr_extra_state_attributes := attrs1\<rparr>, h3)
                              | Inr attrs2 \<Rightarrow>
                             (case set_attribute asset_info ''media_localdatetime'' ''localDateTime''
                                     attrs2 of
                                Inl e \<Rightarrow>
                                  (Raised e, self\<lparr>attr_extra_state_attributes := attrs2\<rparr>, h3)
                              | Inr attrs3 \<Rightarrow>
                                  (Returned,
                                   self\<lparr>attr_extra_state_attributes := attrs3,
                                        current_image_bytes := asset_bytes,
                                        attr_image_last_updated := Some (datetime_now env h3)\<rparr>,
                                   StateWritten # ClockRead # h3))))))))"

text \<open>
  \<open>BaseImmichImage._load_and_cache_next_image\<close>: \<open>asset_bytes\<close> starts as \<open>None\<close>,
  so the body runs at least once. The value \<open>None\<close> of the model means that the method
  does not return.
\<close>

partial_function (option) load_and_cache_next_image ::
  "env \<Rightarrow> image_entity \<times> event list \<Rightarrow> ((error + unit) \<times> image_entity \<times> event list) option"
where
  "load_and_cache_next_image env \<sigma> =
     (case fst (loop_body env \<sigma>) of
        Raised e \<Rightarrow> Some (Inl e, snd (loop_body env \<sigma>))
      | Returned \<Rightarrow> Some (Inr (), snd (loop_body env \<sigma>))
      | Retry \<Rightarrow> load_and_cache_next_image env (snd (loop_body env \<sigma>)))"

text \<open>
  The first \<open>n\<close> passes through the loop body: \<open>Retry\<close> when all of them ended in
  \<open>continue\<close>, otherwise the outcome of the pass that left the loop.
\<close>

fun passes :: "nat \<Rightarrow> env \<Rightarrow> image_entity \<times> event list \<Rightarrow> outcome \<times> image_entity \<times> event list" where
  "passes 0 env \<sigma> = (Retry, \<sigma>)"
| "passes (Suc n) env \<sigma> =
     (case fst (loop_body env \<sigma>) of
        Retry \<Rightarrow> passes n env (snd (loop_body env \<sigma>))
      | left \<Rightarrow> loop_body env \<sigma>)"

declare load_and_cache_next_image.simps [code]

text \<open>
  The state of the cache in which a selection cannot come out empty: it was never
  filled (the next call refreshes it), or it holds a non-empty list of non-empty asset
  IDs.
\<close>

definition stocked :: "image_entity \<Rightarrow> bool" where
  "stocked self \<longleftrightarrow>
     available_asset_ids_last_updated self = None
     \<or> (\<exists>ids. cached_available_asset_ids self = Some ids \<and> ids \<noteq> [] \<and> [] \<notin> set ids)"

section \<open>Concrete inputs\<close>

text \<open>The inputs at which the theorems below are instantiated.\<close>

definition jpeg_image :: "string \<Rightarrow> json" where
  "jpeg_image i =
     JDict [(''id'', JStr i), (''type'', JStr ''IMAGE''), (''originalMimeType'', JStr ''image/JPEG''),
            (''mimeType'', JStr ''video/mp4'')]"

definition video :: "string \<Rightarrow> json" where
  "video i = JDict [(''id'', JStr i), (''type'', JStr ''VIDEO''), (''originalMimeType'', JStr ''image/png'')]"

definition search_body :: "json list \<Rightarrow> json" where
  "search_body assets = JDict [(''assets'', JDict [(''items'', JList assets)])]"

text \<open>
  A server for the scenario of two persons: the search for p1 finds x (and a video),
  the search for p2 finds y and x, any other search finds nothing; the album holds x
  and a video.
\<close>

definition people_server :: server where
  "people_server =
     \<lparr> post_search_metadata = (\<lambda>p.
         if map_of p ''personIds'' = Some (JList [JStr ''p1''])
         then Response 200 ''application/json'' (search_body [jpeg_image ''x'', video ''v''])
         else if map_of p ''personIds'' = Some (JList [JStr ''p2''])
         then Response 200 ''application/json'' (search_body [jpeg_image ''y'', jpeg_image ''x''])
         else Response 200 ''application/json'' (search_body [])),
       post_favorites = Failed,
       get_album = (\<lambda>album_id.
         Response 200 ''application/json''
           (JDict [(''id'', JStr album_id), (''assets'', JList [jpeg_image ''x'', video ''v''])])) \<rparr>"

text \<open>
  Answers of the search endpoint: status 200 with a given body, and status 201 with an
  empty object.
\<close>

definition answer :: "json \<Rightarrow> dict \<Rightarrow> json exchange" where
  "answer data p = Response 200 ''application/json'' data"

definition created_endpoint :: "dict \<Rightarrow> json exchange" where
  "created_endpoint p = Response 201 ''application/json'' (JDict [])"

definition people_payload :: dict where
  "people_payload = [(''personIds'', JList [JStr ''p1'', JStr ''p2'']), (''type'', JStr ''IMAGE'')]"

text \<open>
  An entity as \<open>__init__\<close> leaves it, and one whose cache was filled at time 0; an
  environment whose clock advances one second per event, with variants in which no
  download succeeds, the candidate list is empty, the refresh is the one of an album
  entity, the only candidate is the empty string, and the asset information arrives
  with status 200 and the body \<open>null\<close>.
\<close>

definition new_entity :: image_entity where
  "new_entity =
     \<lparr> current_image_bytes = None, cached_available_asset_ids = None,
       available_asset_ids_last_updated = None, attr_extra_state_attributes = [],
       attr_image_last_updated = None \<rparr>"

definition polled_entity :: image_entity where
  "polled_entity =
     new_entity\<lparr>cached_available_asset_ids := Some [''a'', ''b''],
                 available_asset_ids_last_updated := Some 0\<rparr>"

definition demo_env :: env where
  "demo_env =
     \<lparr> datetime_now = (\<lambda>h. 1000000 * int (length h)),
       refresh = (\<lambda>h. Inr (Some [''a'', ''b''])),
       randbelow = (\<lambda>h n. 0),
       original = (\<lambda>h a. if a = ''a'' then Response 200 ''image/png'' [1, 2, 3]
                          else Response 404 ''text/plain'' []),
       asset = (\<lambda>h a. Response 200 ''application/json''
                         (JDict [(''originalFileName'', JStr ''x.jpg'')])) \<rparr>"

definition unavailable_env :: env where
  "unavailable_env =
     demo_env\<lparr>refresh := (\<lambda>h. Inr (Some [''a''])),
              original := (\<lambda>h a. Response 404 ''text/plain'' [])\<rparr>"

definition empty_env :: env where
  "empty_env = demo_env\<lparr>refresh := (\<lambda>h. Inr (Some []))\<rparr>"


definition blank_id_env :: env where
  "blank_id_env = unavailable_env\<lparr>refresh := (\<lambda>h. Inr (Some [[]]))\<rparr>"


section \<open>Properties\<close>

subsection \<open>The hub\<close>

text \<open>
  C9. For every exchange of the download operation: a response whose status is not a
  success status (outside 200..299), or whose declared content type is neither
  image/png nor image/jpeg, makes the operation return no bytes and not raise; and the
  operation raises only the connectivity error, and only when the transport failed.
\<close>

theorem download_asset_no_bytes_or_cannot_connect:
  "((st < 200 \<or> 300 \<le> st \<or> ct \<notin> {''image/png'', ''image/jpeg''})
      \<longrightarrow> download_asset (Response st ct content) = Inr None)
   \<and> (download_asset x = Inl e \<longrightarrow> x = Failed \<and> e = CannotConnect)"
  by (auto simp: download_asset_def ALLOWED_MIME_TYPES_def split: exchange.splits if_splits)

theorem download_asset_no_bytes_or_cannot_connect_witness:
  "download_asset (Response 404 ''image/png'' [1, 2]) = Inr None
   \<and> download_asset (Response 200 ''text/html'' [1, 2]) = Inr None
   \<and> download_asset Failed = Inl CannotConnect"
  using download_asset_no_bytes_or_cannot_connect
          [of 404 "''image/png''" "[1, 2]" Failed CannotConnect]
        download_asset_no_bytes_or_cannot_connect
          [of 200 "''text/html''" "[1, 2]" Failed CannotConnect]
  by (simp add: download_asset_def)

subsection \<open>Sequencing\<close>

lemma and_then_Inr:
  "and_then r f = Inr y \<longleftrightarrow> (\<exists>v. r = Inr v \<and> f v = Inr y)"
  by (cases r) (simp_all add: and_then_def)

lemma and_then_simps [simp]:
  "and_then (Inl e) f = Inl e" "and_then (Inr v) f = f v"
  by (simp_all add: and_then_def)

subsection \<open>The search operation\<close>

lemma py_get_Inr: "py_get a k dflt = Inr v \<Longrightarrow> \<exists>d. a = JDict d"
  by (cases a) simp_all

lemma py_lower_Inr: "py_lower v = Inr m \<Longrightarrow> \<exists>s. v = JStr s \<and> m = lower s"
  by (cases v) auto

lemma keeps_True:
  assumes "keeps a = Inr True"
  shows "\<exists>d m. a = JDict d \<and> map_of d ''type'' = Some (JStr ''IMAGE'')
           \<and> (case map_of d ''originalMimeType'' of
                 Some v \<Rightarrow> v = JStr m
               | None \<Rightarrow> (case map_of d ''mimeType'' of Some v \<Rightarrow> v = JStr m | None \<Rightarrow> m = []))
           \<and> lower m \<in> set allowed"
proof -
  from assms obtain d where a: "a = JDict d"
    by (auto simp: keeps_def and_then_Inr dest: py_get_Inr)
  from assms a have ty: "map_of d ''type'' = Some (JStr ''IMAGE'')"
    by (auto simp: keeps_def split: option.splits if_splits)
  with assms a obtain lm where lm: "mtype (JDict d) = Inr lm" "lm \<in> set allowed"
    by (auto simp: keeps_def and_then_Inr split: if_splits)
  from lm(1) obtain m where m:
    "(case map_of d ''originalMimeType'' of
        Some v \<Rightarrow> v
      | None \<Rightarrow> (case map_of d ''mimeType'' of Some v \<Rightarrow> v | None \<Rightarrow> JStr [])) = JStr m"
    "lm = lower m"
    by (auto simp: mtype_def dest!: py_lower_Inr)
  from m(1) have "case map_of d ''originalMimeType'' of
                 Some v \<Rightarrow> v = JStr m
               | None \<Rightarrow> (case map_of d ''mimeType'' of Some v \<Rightarrow> v = JStr m | None \<Rightarrow> m = [])"
    by (auto split: option.splits)
  with a ty lm(2) m(2) show ?thesis by blast
qed

lemma keep_images_keeps:
  "keep_images as = Inr found \<Longrightarrow> a \<in> set found \<Longrightarrow> keeps a = Inr True \<and> a \<in> set as"
proof (induction as arbitrary: found)
  case Nil
  then show ?case by simp
next
  case (Cons b as)
  from Cons.prems(1) obtain k rest where
    k: "keeps b = Inr k" and rest: "keep_images as = Inr rest"
    and found: "found = (if k then b # rest else rest)"
    by (auto simp: and_then_Inr)
  show ?case
  proof (cases "a \<in> set rest")
    case True
    with Cons.IH [OF rest] show ?thesis by simp
  next
    case False
    with found Cons.prems(2) have "k" "a = b" by (auto split: if_splits)
    with k show ?thesis by simp
  qed
qed

text \<open>
  C5. Whatever payload is searched and whatever the service answers, every entry of a
  list that the search operation returns is an object whose \<open>type\<close> field equals IMAGE
  and whose MIME type, read from \<open>originalMimeType\<close> when that key is present and from
  \<open>mimeType\<close> otherwise (the empty string when both are missing), is after lowercasing
  one of image/jpeg, image/jpg, image/png, image/webp, image/heic, image/heif.
\<close>

theorem search_images_only_allowed_images:
  assumes "search_images post payload = Inr found" and "a \<in> set found"
  shows "\<exists>d m. a = JDict d \<and> map_of d ''type'' = Some (JStr ''IMAGE'')
           \<and> (case map_of d ''originalMimeType'' of
                 Some v \<Rightarrow> v = JStr m
               | None \<Rightarrow> (case map_of d ''mimeType'' of Some v \<Rightarrow> v = JStr m | None \<Rightarrow> m = []))
           \<and> lower m \<in> {''image/jpeg'', ''image/jpg'', ''image/png'', ''image/webp'',
                          ''image/heic'', ''image/heif''}"
proof -
  from assms obtain as where "keep_images as = Inr found"
    by (auto simp: search_images_def and_then_Inr split: exchange.splits if_splits option.splits)
  with assms(2) have "keeps a = Inr True" by (blast dest: keep_images_keeps)
  from keeps_True [OF this] show ?thesis by (simp add: allowed_def)
qed

theorem search_images_only_allowed_images_witness:
  "search_images (post_search_metadata people_server) [(''personIds'', JList [JStr ''p1''])]
     = Inr [jpeg_image ''x'']
   \<and> jpeg_image ''x'' \<in> set [jpeg_image ''x'']
   \<and> (\<exists>d m. jpeg_image ''x'' = JDict d \<and> map_of d ''type'' = Some (JStr ''IMAGE'')
          \<and> (case map_of d ''originalMimeType'' of
                Some v \<Rightarrow> v = JStr m
              | None \<Rightarrow> (case map_of d ''mimeType'' of Some v \<Rightarrow> v = JStr m | None \<Rightarrow> m = []))
          \<and> lower m \<in> {''image/jpeg'', ''image/jpg'', ''image/png'', ''image/webp'',
                         ''image/heic'', ''image/heif''})"
proof -
  have found: "search_images (post_search_metadata people_server)
                 [(''personIds'', JList [JStr ''p1''])] = Inr [jpeg_image ''x'']"
    by code_simp
  have mem: "jpeg_image ''x'' \<in> set [jpeg_image ''x'']"
    by simp
  from search_images_only_allowed_images [OF found mem] found mem show ?thesis
    by blast
qed

lemma py_in_dict: "py_in k (JDict d) = Inr (map_of d k \<noteq> None)"
  by (simp add: map_of_eq_None_iff)

lemma extract_assets_flat:
  "map_of d ''items'' = Some (JList xs) \<Longrightarrow> extract_assets (JDict d) = Inr (Some (JList xs))"
  by (simp add: extract_assets_def py_in_dict del: py_in.simps)

lemma extract_assets_nested:
  assumes "\<forall>xs. map_of d ''items'' \<noteq> Some (JList xs)"
    and "map_of d ''assets'' = Some (JDict inner)"
  shows "extract_assets (JDict d) =
           Inr (Some (case map_of inner ''items'' of None \<Rightarrow> JList [] | Some v \<Rightarrow> v))"
proof (cases "map_of d ''items''")
  case None
  with assms(2) show ?thesis
    by (simp add: extract_assets_def py_in_dict del: py_in.simps)
next
  case (Some v)
  with assms(1) have "\<not> is_list v" by (cases v) simp_all
  with Some assms(2) show ?thesis
    by (simp add: extract_assets_def py_in_dict del: py_in.simps)
qed

lemma extract_assets_other:
  assumes "\<forall>xs. map_of d ''items'' \<noteq> Some (JList xs)"
    and "\<forall>inner. map_of d ''assets'' \<noteq> Some (JDict inner)"
  shows "extract_assets (JDict d) = Inr None"
proof -
  have i: "map_of d ''items'' = None \<or> (\<exists>v. map_of d ''items'' = Some v \<and> \<not> is_list v)"
  proof (cases "map_of d ''items''")
    case (Some v) with assms(1) show ?thesis by (cases v) simp_all
  qed simp
  have a: "map_of d ''assets'' = None \<or> (\<exists>v. map_of d ''assets'' = Some v \<and> \<not> is_dict v)"
  proof (cases "map_of d ''assets''")
    case (Some v) with assms(2) show ?thesis by (cases v) simp_all
  qed simp
  from i a show ?thesis
    by (auto simp: extract_assets_def py_in_dict simp del: py_in.simps)
qed

lemma extract_assets_list:
  "JStr ''items'' \<notin> set xs \<Longrightarrow> JStr ''assets'' \<notin> set xs \<Longrightarrow> extract_assets (JList xs) = Inr None"
  by (simp add: extract_assets_def)

lemma extract_assets_str:
  "\<not> str_contains ''items'' s \<Longrightarrow> \<not> str_contains ''assets'' s \<Longrightarrow> extract_assets (JStr s) = Inr None"
  by (simp add: extract_assets_def)

text \<open>
  C6, as amended. A search response whose status is not 200 raises the API error. For
  every search response with status 200: if the body is an object with a top-level
  \<open>items\<close> field that is a list, the search filters that list; otherwise, if the body
  is an object whose \<open>assets\<close> field is an object, the search filters the list in that
  object's \<open>items\<close> field, and returns the empty list when that key is missing or
  holds an empty string or an empty object; and the search returns the empty list
  without raising when the body is an object with neither a list-valued \<open>items\<close> nor
  an object-valued \<open>assets\<close>, or a list that has neither of the strings \<open>items\<close> and
  \<open>assets\<close> as an element, or a string in which neither of them occurs.
\<close>

theorem search_images_extractor:
  assumes "post (full_payload payload) = Response st ct data"
  shows "(st \<noteq> 200 \<longrightarrow> search_images post payload = Inl ApiError)
       \<and> (st = 200 \<longrightarrow>
            (\<forall>d xs. data = JDict d \<and> map_of d ''items'' = Some (JList xs)
               \<longrightarrow> search_images post payload = keep_images xs)
          \<and> (\<forall>d inner. data = JDict d \<and> (\<forall>xs. map_of d ''items'' \<noteq> Some (JList xs))
                         \<and> map_of d ''assets'' = Some (JDict inner) \<longrightarrow>
                (\<forall>xs. map_of inner ''items'' = Some (JList xs)
                   \<longrightarrow> search_images post payload = keep_images xs)
              \<and> (map_of inner ''items'' = None \<or> map_of inner ''items'' = Some (JStr [])
                  \<or> map_of inner ''items'' = Some (JDict [])
                   \<longrightarrow> search_images post payload = Inr []))
          \<and> (\<forall>d. data = JDict d \<and> (\<forall>xs. map_of d ''items'' \<noteq> Some (JList xs))
                   \<and> (\<forall>inner. map_of d ''assets'' \<noteq> Some (JDict inner))
               \<longrightarrow> search_images post payload = Inr [])
          \<and> (\<forall>xs. data = JList xs \<and> JStr ''items'' \<notin> set xs \<and> JStr ''assets'' \<notin> set xs
               \<longrightarrow> search_images post payload = Inr [])
          \<and> (\<forall>s. data = JStr s \<and> \<not> str_contains ''items'' s \<and> \<not> str_contains ''assets'' s
               \<longrightarrow> search_images post payload = Inr []))"
proof (intro conjI impI allI)
  assume "st \<noteq> 200"
  with assms show "search_images post payload = Inl ApiError"
    by (simp add: search_images_def)
next
  fix d xs
  assume "st = 200" and "data = JDict d \<and> map_of d ''items'' = Some (JList xs)"
  with assms show "search_images post payload = keep_images xs"
    by (simp add: search_images_def extract_assets_flat)
next
  fix d inner xs
  assume "st = 200"
    and "data = JDict d \<and> (\<forall>xs. map_of d ''items'' \<noteq> Some (JList xs))
                         \<and> map_of d ''assets'' = Some (JDict inner)"
    and "map_of inner ''items'' = Some (JList xs)"
  with assms show "search_images post payload = keep_images xs"
    by (simp add: search_images_def extract_assets_nested)
next
  fix d inner
  assume "st = 200"
    and "data = JDict d \<and> (\<forall>xs. map_of d ''items'' \<noteq> Some (JList xs))
                         \<and> map_of d ''assets'' = Some (JDict inner)"
    and "map_of inner ''items'' = None \<or> map_of inner ''items'' = Some (JStr [])
                  \<or> map_of inner ''items'' = Some (JDict [])"
  with assms show "search_images post payload = Inr []"
    by (auto simp: search_images_def extract_assets_nested)
next
  fix d
  assume "st = 200"
    and "data = JDict d \<and> (\<forall>xs. map_of d ''items'' \<noteq> Some (JList xs))
                   \<and> (\<forall>inner. map_of d ''assets'' \<noteq> Some (JDict inner))"
  with assms show "search_images post payload = Inr []"
    by (simp add: search_images_def extract_assets_other)
next
  fix xs
  assume "st = 200"
    and "data = JList xs \<and> JStr ''items'' \<notin> set xs \<and> JStr ''assets'' \<notin> set xs"
  with assms show "search_images post payload = Inr []"
    by (simp add: search_images_def extract_assets_list)
next
  fix s
  assume "st = 200"
    and "data = JStr s \<and> \<not> str_contains ''items'' s \<and> \<not> str_contains ''assets'' s"
  with assms show "search_images post payload = Inr []"
    by (simp add: search_images_def extract_assets_str)
qed

theorem search_images_extractor_witness:
  "search_images (answer (JDict [(''items'', JList [jpeg_image ''x'', video ''v'']),
                                (''assets'', JDict [(''items'', JList [jpeg_image ''y''])])])) []
     = Inr [jpeg_image ''x'']
   \<and> search_images (answer (search_body [video ''v'', jpeg_image ''y''])) [] = Inr [jpeg_image ''y'']
   \<and> search_images (answer (JDict [(''items'', JNull), (''assets'', JDict [])])) [] = Inr []
   \<and> search_images (answer (JDict [(''assets'', JDict [(''items'', JDict [])])])) [] = Inr []
   \<and> search_images (answer (JDict [(''items'', JNull), (''assets'', JList [jpeg_image ''x''])])) []
       = Inr []
   \<and> search_images (answer (JList [])) [] = Inr []
   \<and> search_images (answer (JStr ''hello'')) [] = Inr []
   \<and> search_images created_endpoint [] = Inl ApiError"
proof -
  have kx: "keep_images [jpeg_image ''x'', video ''v''] = Inr [jpeg_image ''x'']"
    by code_simp
  have ky: "keep_images [video ''v'', jpeg_image ''y''] = Inr [jpeg_image ''y'']"
    by code_simp
  have post: "answer data (full_payload []) = Response 200 ''application/json'' data" for data
    by (simp add: answer_def)
  have created: "created_endpoint (full_payload []) = Response 201 ''application/json'' (JDict [])"
    by (simp add: created_endpoint_def)
  have hello: "\<not> str_contains ''items'' ''hello''" "\<not> str_contains ''assets'' ''hello''"
    by simp_all
  from search_images_extractor
         [of "answer (JDict [(''items'', JList [jpeg_image ''x'', video ''v'']),
                                (''assets'', JDict [(''items'', JList [jpeg_image ''y''])])])" "[]" 200 "''application/json''"
             "JDict [(''items'', JList [jpeg_image ''x'', video ''v'']),
                                (''assets'', JDict [(''items'', JList [jpeg_image ''y''])])]", OF post] kx
  have 1: "search_images (answer (JDict [(''items'', JList [jpeg_image ''x'', video ''v'']),
                                (''assets'', JDict [(''items'', JList [jpeg_image ''y''])])])) []
     = Inr [jpeg_image ''x'']"
    by simp
  from search_images_extractor
         [of "answer (search_body [video ''v'', jpeg_image ''y''])" "[]" 200 "''application/json''"
             "search_body [video ''v'', jpeg_image ''y'']", OF post] ky
  have 2: "search_images (answer (search_body [video ''v'', jpeg_image ''y''])) []
             = Inr [jpeg_image ''y'']"
    by (simp add: search_body_def)
  from search_images_extractor
         [of "answer (JDict [(''items'', JNull), (''assets'', JDict [])])" "[]" 200 "''application/json''"
             "JDict [(''items'', JNull), (''assets'', JDict [])]", OF post]
  have 3: "search_images (answer (JDict [(''items'', JNull), (''assets'', JDict [])])) [] = Inr []"
    by simp
  from search_images_extractor
         [of "answer (JDict [(''assets'', JDict [(''items'', JDict [])])])" "[]" 200 "''application/json''"
             "JDict [(''assets'', JDict [(''items'', JDict [])])]", OF post]
  have 4: "search_images (answer (JDict [(''assets'', JDict [(''items'', JDict [])])])) [] = Inr []"
    by simp
  from search_images_extractor
         [of "answer (JDict [(''items'', JNull), (''assets'', JList [jpeg_image ''x''])])" "[]" 200 "''application/json''"
             "JDict [(''items'', JNull), (''assets'', JList [jpeg_image ''x''])]", OF post]
  have 5: "search_images (answer (JDict [(''items'', JNull), (''assets'', JList [jpeg_image ''x''])])) []
             = Inr []"
    by simp
  from search_images_extractor
         [of "answer (JList [])" "[]" 200 "''application/json''"
             "JList []", OF post]
  have 6: "search_images (answer (JList [])) [] = Inr []"
    by simp
  from search_images_extractor
         [of "answer (JStr ''hello'')" "[]" 200 "''application/json''"
             "JStr ''hello''", OF post] hello
  have 7: "search_images (answer (JStr ''hello'')) [] = Inr []"
    by simp
  from search_images_extractor
         [of created_endpoint "[]" 201 "''application/json''" "JDict []", OF created]
  have 8: "search_images created_endpoint [] = Inl ApiError"
    by simp
  from 1 2 3 4 5 6 7 8 show ?thesis by blast
qed

text \<open>
  C6 as stated fails on each of these answers: status 201 raises the API error; at
  status 200, a nested \<open>items\<close> that is null or a number raises \<open>TypeError\<close> and one
  that is a non-empty string or a non-empty object raises \<open>AttributeError\<close>; a body
  that is null, a boolean or a number raises \<open>TypeError\<close>, and so does a list with
  the element \<open>items\<close> or \<open>assets\<close> and a string in which one of them occurs.
\<close>

theorem search_images_unexpected_shape_counterexample:
  "search_images created_endpoint [] = Inl ApiError
   \<and> search_images (answer (JDict [(''assets'', JDict [(''items'', JNull)])])) [] = Inl TypeError
   \<and> search_images (answer (JDict [(''assets'', JDict [(''items'', JInt 3)])])) [] = Inl TypeError
   \<and> search_images (answer (JDict [(''assets'', JDict [(''items'', JStr ''x'')])])) []
       = Inl AttributeError
   \<and> search_images (answer (JDict [(''assets'', JDict [(''items'', JDict [(''k'', JNull)])])])) []
       = Inl AttributeError
   \<and> search_images (answer JNull) [] = Inl TypeError
   \<and> search_images (answer (JBool True)) [] = Inl TypeError
   \<and> search_images (answer (JInt 0)) [] = Inl TypeError
   \<and> search_images (answer (JList [JStr ''items''])) [] = Inl TypeError
   \<and> search_images (answer (JList [JStr ''assets''])) [] = Inl TypeError
   \<and> search_images (answer (JStr ''items'')) [] = Inl TypeError
   \<and> search_images (answer (JStr ''assets'')) [] = Inl TypeError"
  by (simp add: search_images_def extract_assets_def answer_def created_endpoint_def keeps_def)

subsection \<open>The fan-out search variant\<close>

lemma gather_map:
  "\<forall>x\<in>set xs. f x = Inr (g x) \<Longrightarrow> gather (map f xs) = Inr (map g xs)"
  by (induction xs) simp_all

lemma ids_of_append:
  "ids_of as = Inr is \<Longrightarrow> ids_of bs = Inr js \<Longrightarrow> ids_of (as @ bs) = Inr (is @ js)"
  by (induction as arbitrary: "is") (auto simp: and_then_Inr)

lemma ids_of_concat:
  "\<forall>as\<in>set ass. ids_of as = Inr (h as) \<Longrightarrow> ids_of (concat ass) = Inr (concat (map h ass))"
  by (induction ass) (simp_all add: ids_of_append)

lemma ids_of_set:
  "ids_of as = Inr ids \<Longrightarrow> set ids = {i. \<exists>a\<in>set as. item_id a = Inr i}"
proof (induction as arbitrary: ids)
  case Nil
  then show ?case by simp
next
  case (Cons a as)
  then obtain i rest where "item_id a = Inr i" "ids_of as = Inr rest" "ids = i # rest"
    by (auto simp: and_then_Inr)
  with Cons.IH [of rest] show ?case by auto
qed

lemma map_of_filter_neq:
  "map_of (filter (\<lambda>kv. fst kv \<noteq> k) al) = (map_of al)(k := None)"
  by (induction al) (auto simp: fun_eq_iff)

lemma filter_neq_update:
  "filter (\<lambda>kv. fst kv \<noteq> k) (AList.update k v al) = filter (\<lambda>kv. fst kv \<noteq> k) al"
  by (induction al) auto

lemma one_payload:
  "\<exists>q. one srv search_payload pid = search_images (post_search_metadata srv) q
       \<and> map_of q = (map_of search_payload)(''personIds'' \<mapsto> JList [pid])"
proof -
  let ?q = "dict_merge (filter (\<lambda>kv. fst kv \<noteq> ''personIds'') search_payload)
              [(''personIds'', JList [pid])]"
  have "map_of ?q = (map_of search_payload)(''personIds'' \<mapsto> JList [pid])"
    by (simp add: dict_merge_def update_conv' map_of_filter_neq)
  moreover have "one srv search_payload pid = search_images (post_search_metadata srv) ?q"
    by (simp add: one_def)
  ultimately show ?thesis by blast
qed

lemma one_update:
  "one srv (AList.update ''personIds'' v search_payload) pid = one srv search_payload pid"
  by (simp add: one_def filter_neq_update)

lemma search_refresh_union:
  assumes pids: "map_of search_payload ''personIds'' = Some (JList pids)"
    and ok: "\<forall>pid\<in>set pids. \<exists>assets ids. one srv search_payload pid = Inr assets
                                          \<and> ids_of assets = Inr ids"
  shows "\<exists>ids. search_refresh_available_asset_ids srv search_payload = Inr ids
           \<and> distinct ids
           \<and> set ids = {i. \<exists>pid\<in>set pids. \<exists>assets. \<exists>a\<in>set assets.
                             one srv search_payload pid = Inr assets \<and> item_id a = Inr i}"
proof -
  define g where "g pid = projr (one srv search_payload pid)" for pid
  define h where "h as = projr (ids_of as)" for as
  from ok have g: "\<forall>pid\<in>set pids. one srv search_payload pid = Inr (g pid)"
    by (auto simp: g_def)
  from ok g have h: "\<forall>as\<in>set (map g pids). ids_of as = Inr (h as)"
    by (auto simp: h_def)
  let ?all = "concat (map h (map g pids))"
  have res: "search_refresh_available_asset_ids srv search_payload = Inr (remdups ?all)"
    using pids gather_map [OF g] ids_of_concat [OF h]
    by (simp add: search_refresh_available_asset_ids_def)
  have "set ?all = {i. \<exists>pid\<in>set pids. \<exists>assets. \<exists>a\<in>set assets.
                        one srv search_payload pid = Inr assets \<and> item_id a = Inr i}"
    (is "?L = ?R")
  proof
    show "?L \<subseteq> ?R"
    proof
      fix i assume "i \<in> ?L"
      then obtain pid where pid: "pid \<in> set pids" and i: "i \<in> set (h (g pid))" by auto
      from h pid have "ids_of (g pid) = Inr (h (g pid))" by simp
      from ids_of_set [OF this] i obtain a where "a \<in> set (g pid)" "item_id a = Inr i" by auto
      with pid g show "i \<in> ?R" by blast
    qed
    show "?R \<subseteq> ?L"
    proof
      fix i assume "i \<in> ?R"
      then obtain pid assets a where pid: "pid \<in> set pids"
        and as: "one srv search_payload pid = Inr assets" and a: "a \<in> set assets"
        and i: "item_id a = Inr i" by blast
      from g pid as have assets: "assets = g pid" by simp
      from h pid have "ids_of (g pid) = Inr (h (g pid))" by simp
      from ids_of_set [OF this] a i assets have "i \<in> set (h (g pid))" by auto
      with pid show "i \<in> ?L" by auto
    qed
  qed
  with res show ?thesis by simp
qed

text \<open>
  C4. For every search payload whose \<open>personIds\<close> entry is a list, and when every
  per-person search returns assets with string IDs: the search variant's refresh returns
  a duplicate-free list whose elements are exactly the asset IDs found by the per-person
  searches, one search per person ID; the same set results for any other arrangement of
  the same person IDs; and each per-person search posts the original payload with the
  \<open>personIds\<close> entry replaced by the list holding that one person.
\<close>

theorem search_refresh_is_union_of_person_searches:
  assumes pids: "map_of search_payload ''personIds'' = Some (JList pids)"
    and ok: "\<forall>pid\<in>set pids. \<exists>assets ids. one srv search_payload pid = Inr assets
                                          \<and> ids_of assets = Inr ids"
  shows "(\<exists>ids. refresh_available_asset_ids srv (ImmichImageSearch search_payload) = Inr ids
            \<and> distinct ids
            \<and> set ids = {i. \<exists>pid\<in>set pids. \<exists>assets. \<exists>a\<in>set assets.
                              one srv search_payload pid = Inr assets \<and> item_id a = Inr i}
            \<and> (\<forall>pids'. set pids' = set pids \<longrightarrow>
                  (\<exists>ids'. refresh_available_asset_ids srv
                             (ImmichImageSearch
                                (AList.update ''personIds'' (JList pids') search_payload))
                           = Inr ids'
                         \<and> set ids' = set ids)))
       \<and> (\<forall>pid. \<exists>q. one srv search_payload pid = search_images (post_search_metadata srv) q
                  \<and> map_of q = (map_of search_payload)(''personIds'' \<mapsto> JList [pid]))"
proof -
  from search_refresh_union [OF pids ok] obtain ids where
    ids: "search_refresh_available_asset_ids srv search_payload = Inr ids" "distinct ids"
      "set ids = {i. \<exists>pid\<in>set pids. \<exists>assets. \<exists>a\<in>set assets.
                       one srv search_payload pid = Inr assets \<and> item_id a = Inr i}"
    by blast
  have perm: "\<exists>ids'. search_refresh_available_asset_ids srv
                        (AList.update ''personIds'' (JList pids') search_payload) = Inr ids'
                    \<and> set ids' = set ids"
    if eq: "set pids' = set pids" for pids'
  proof -
    let ?p = "AList.update ''personIds'' (JList pids') search_payload"
    have p: "map_of ?p ''personIds'' = Some (JList pids')"
      by (simp add: update_conv')
    have ok': "\<forall>pid\<in>set pids'. \<exists>assets ids. one srv ?p pid = Inr assets \<and> ids_of assets = Inr ids"
      using ok eq by (simp add: one_update)
    from search_refresh_union [OF p ok'] obtain ids' where
      r: "search_refresh_available_asset_ids srv ?p = Inr ids'"
      and s: "set ids' = {i. \<exists>pid\<in>set pids'. \<exists>assets. \<exists>a\<in>set assets.
                              one srv ?p pid = Inr assets \<and> item_id a = Inr i}"
      by blast
    from s ids(3) eq have "set ids' = set ids"
      by (simp add: one_update)
    with r show ?thesis by blast
  qed
  from ids perm one_payload show ?thesis by simp
qed

theorem search_refresh_is_union_of_person_searches_witness:
  "map_of people_payload ''personIds'' = Some (JList [JStr ''p1'', JStr ''p2''])
   \<and> one people_server people_payload (JStr ''p1'') = Inr [jpeg_image ''x'']
   \<and> ids_of [jpeg_image ''x''] = Inr [''x'']
   \<and> one people_server people_payload (JStr ''p2'') = Inr [jpeg_image ''y'', jpeg_image ''x'']
   \<and> ids_of [jpeg_image ''y'', jpeg_image ''x''] = Inr [''y'', ''x'']
   \<and> (\<exists>ids. refresh_available_asset_ids people_server (ImmichImageSearch people_payload) = Inr ids
          \<and> distinct ids \<and> set ids = {''x'', ''y''})"
proof -
  have pids: "map_of people_payload ''personIds'' = Some (JList [JStr ''p1'', JStr ''p2''])"
    by (simp add: people_payload_def)
  have p1: "one people_server people_payload (JStr ''p1'') = Inr [jpeg_image ''x'']"
    by code_simp
  have p2: "one people_server people_payload (JStr ''p2'') = Inr [jpeg_image ''y'', jpeg_image ''x'']"
    by code_simp
  have i1: "ids_of [jpeg_image ''x''] = Inr [''x'']"
    by code_simp
  have i2: "ids_of [jpeg_image ''y'', jpeg_image ''x''] = Inr [''y'', ''x'']"
    by code_simp
  have ok: "\<forall>pid\<in>set [JStr ''p1'', JStr ''p2''].
              \<exists>assets ids. one people_server people_payload pid = Inr assets
                          \<and> ids_of assets = Inr ids"
    using p1 p2 i1 i2 by simp
  have run: "refresh_available_asset_ids people_server (ImmichImageSearch people_payload)
               = Inr [''y'', ''x'']"
    by code_simp
  from search_refresh_is_union_of_person_searches [OF pids ok]
  have "\<exists>ids. refresh_available_asset_ids people_server (ImmichImageSearch people_payload) = Inr ids
              \<and> distinct ids"
    by blast
  with run have "\<exists>ids. refresh_available_asset_ids people_server (ImmichImageSearch people_payload)
                        = Inr ids \<and> distinct ids \<and> set ids = {''x'', ''y''}"
    by auto
  with pids p1 p2 i1 i2 show ?thesis by blast
qed

subsection \<open>The album variant\<close>

text \<open>
  C3. The album variant's refresh never reaches the album-detail operation: the class
  inherits the base method, which reads \<open>_search_payload\<close>, an attribute that the album
  class does not have. For every server and album ID the refresh raises
  \<open>AttributeError\<close>; on the example server the album-detail listing of that album would
  have given the ID x.
\<close>

theorem album_refresh_raises_attribute_error:
  "refresh_available_asset_ids srv (ImmichImageAlbum album_id) = Inl AttributeError
   \<and> and_then (list_album_images (get_album people_server ''album-1'')) ids_of = Inr [''x'']"
proof -
  have "and_then (list_album_images (get_album people_server ''album-1'')) ids_of = Inr [''x'']"
    by code_simp
  then show ?thesis
    by (simp add: base_refresh_available_asset_ids_def)
qed

subsection \<open>The candidate cache\<close>

lemma select_cached_state:
  "\<exists>r evs. select_cached env (self, h) = (r, self, evs @ h) \<and> RefreshCalled \<notin> set evs
           \<and> StateWritten \<notin> set evs"
  by (auto simp: select_cached_def split: option.splits)

lemma select_cached_result:
  "select_cached env (self, h) = (r, self', h') \<Longrightarrow>
     self' = self
     \<and> (case cached_available_asset_ids self of
           None \<Rightarrow> r = Inr None
         | Some ids \<Rightarrow> if ids = [] then r = Inr None else (\<exists>a\<in>set ids. r = Inr (Some a)))"
  by (auto simp: select_cached_def split: option.splits if_splits)

lemma get_next_asset_id_fresh:
  assumes "available_asset_ids_last_updated self = Some t"
    and "datetime_now env h - t \<le> ID_LIST_REFRESH_INTERVAL"
  shows "get_next_asset_id env (self, h) = select_cached env (self, ClockRead # h)"
  using assms by (simp add: get_next_asset_id_def)

lemma get_next_asset_id_stale:
  assumes "available_asset_ids_last_updated self = None
           \<or> (\<exists>t. available_asset_ids_last_updated self = Some t
                  \<and> datetime_now env h - t > ID_LIST_REFRESH_INTERVAL)"
    and "h1 = (if available_asset_ids_last_updated self = None then h else ClockRead # h)"
  shows "get_next_asset_id env (self, h) =
           (case refresh env h1 of
              Inl e \<Rightarrow> (Inl e, self, RefreshCalled # h1)
            | Inr ids \<Rightarrow>
                select_cached env
                  (self\<lparr>cached_available_asset_ids := ids,
                        available_asset_ids_last_updated :=
                          Some (datetime_now env (RefreshCalled # h1))\<rparr>,
                   ClockRead # RefreshCalled # h1))"
  using assms by (auto simp: get_next_asset_id_def Let_def split: sum.splits)

lemma get_next_asset_id_fresh_run:
  assumes "available_asset_ids_last_updated self = Some t"
    and "datetime_now env h - t \<le> ID_LIST_REFRESH_INTERVAL"
  shows "\<exists>r evs. get_next_asset_id env (self, h) = (r, self, evs @ h) \<and> RefreshCalled \<notin> set evs"
proof -
  from select_cached_state [of env self "ClockRead # h"] obtain r evs where
    sel: "select_cached env (self, ClockRead # h) = (r, self, evs @ ClockRead # h)"
    and evs: "RefreshCalled \<notin> set evs" by blast
  from sel assms have "get_next_asset_id env (self, h) = (r, self, (evs @ [ClockRead]) @ h)"
    by (simp add: get_next_asset_id_fresh)
  moreover from evs have "RefreshCalled \<notin> set (evs @ [ClockRead])" by simp
  ultimately show ?thesis by blast
qed

lemma get_next_asset_id_stale_run:
  assumes stale: "available_asset_ids_last_updated self = None
           \<or> (\<exists>t. available_asset_ids_last_updated self = Some t
                  \<and> datetime_now env h - t > ID_LIST_REFRESH_INTERVAL)"
    and h1: "h1 = (if available_asset_ids_last_updated self = None then h else ClockRead # h)"
  shows "\<exists>r self' evs.
          get_next_asset_id env (self, h) = (r, self', evs @ RefreshCalled # h1)
          \<and> RefreshCalled \<notin> set evs
          \<and> (\<forall>ids. refresh env h1 = Inr ids \<longrightarrow>
                self' = self\<lparr>cached_available_asset_ids := ids,
                             available_asset_ids_last_updated :=
                               Some (datetime_now env (RefreshCalled # h1))\<rparr>)
          \<and> (\<forall>e. refresh env h1 = Inl e \<longrightarrow> r = Inl e \<and> self' = self)"
proof (cases "refresh env h1")
  case (Inl e)
  with get_next_asset_id_stale [OF stale h1]
  have "get_next_asset_id env (self, h) = (Inl e, self, [] @ RefreshCalled # h1)"
    by simp
  moreover have "RefreshCalled \<notin> set ([] :: event list)" by simp
  moreover from Inl have "\<forall>ids. refresh env h1 \<noteq> Inr ids" by simp
  moreover from Inl have "\<forall>e'. refresh env h1 = Inl e' \<longrightarrow> Inl e = (Inl e' :: error + string option) \<and> self = self"
    by simp
  ultimately show ?thesis by blast
next
  case (Inr ids)
  let ?s = "self\<lparr>cached_available_asset_ids := ids,
                 available_asset_ids_last_updated :=
                   Some (datetime_now env (RefreshCalled # h1))\<rparr>"
  from select_cached_state [of env ?s "ClockRead # RefreshCalled # h1"]
  obtain r evs where
    sel: "select_cached env (?s, ClockRead # RefreshCalled # h1)
            = (r, ?s, evs @ ClockRead # RefreshCalled # h1)"
    and evs: "RefreshCalled \<notin> set evs" by blast
  from get_next_asset_id_stale [OF stale h1] Inr sel have
    "get_next_asset_id env (self, h) = (r, ?s, (evs @ [ClockRead]) @ RefreshCalled # h1)"
    by simp
  moreover from evs have "RefreshCalled \<notin> set (evs @ [ClockRead])" by simp
  moreover from Inr have "\<forall>ids'. refresh env h1 = Inr ids' \<longrightarrow> ?s = self\<lparr>cached_available_asset_ids := ids',
                             available_asset_ids_last_updated :=
                               Some (datetime_now env (RefreshCalled # h1))\<rparr>" by simp
  moreover from Inr have "\<forall>e. refresh env h1 \<noteq> Inl e" by simp
  ultimately show ?thesis by blast
qed

lemma select_cached_self: "fst (snd (select_cached env \<sigma>)) = fst \<sigma>"
  by (simp add: select_cached_def split: option.splits)

lemma get_next_asset_id_stamps:
  assumes run: "get_next_asset_id env (self, h) = (Inr r1, self1, h1)"
  shows "\<exists>t. available_asset_ids_last_updated self1 = Some t"
proof -
  from run have self1: "self1 = fst (snd (get_next_asset_id env (self, h)))" by simp
  show ?thesis
  proof (cases "available_asset_ids_last_updated self = None
          \<or> (\<exists>t. available_asset_ids_last_updated self = Some t
                 \<and> datetime_now env h - t > ID_LIST_REFRESH_INTERVAL)")
    case True
    show ?thesis
    proof (cases "refresh env (if available_asset_ids_last_updated self = None then h
                               else ClockRead # h)")
      case (Inl e)
      with get_next_asset_id_stale [OF True refl] run show ?thesis by simp
    next
      case (Inr ids)
      with get_next_asset_id_stale [OF True refl] self1 show ?thesis
        by (simp add: select_cached_self)
    qed
  next
    case False
    then obtain t where t: "available_asset_ids_last_updated self = Some t"
      "datetime_now env h - t \<le> ID_LIST_REFRESH_INTERVAL"
      by (cases "available_asset_ids_last_updated self") auto
    from get_next_asset_id_fresh [OF t] self1 have "self1 = self"
      by (simp add: select_cached_self)
    with t(1) show ?thesis by simp
  qed
qed

text \<open>
  C1. For every call of the get-next-asset-ID operation. If the timestamp is set and the
  clock read by the call is at most 8 hours past it, the refresh capability is not
  invoked and the entity (cache and timestamp included) is left as it was. If the
  timestamp is unset, or the clock is more than 8 hours past it, the capability is
  invoked exactly once; when it returns, its result (empty or not) replaces the cache
  and the timestamp becomes the clock read after the refresh, and when it raises, the
  call raises the same exception and the entity is unchanged. After a call that did
  not raise the timestamp is set, and a second call made within 8 hours of it leaves
  the entity unchanged and does not invoke the capability.
\<close>

theorem get_next_asset_id_refresh_policy:
  assumes "h1 = (if available_asset_ids_last_updated self = None then h else ClockRead # h)"
  shows
  "(\<forall>t. available_asset_ids_last_updated self = Some t
         \<and> datetime_now env h - t \<le> ID_LIST_REFRESH_INTERVAL \<longrightarrow>
       (\<exists>r evs. get_next_asset_id env (self, h) = (r, self, evs @ h)
                \<and> RefreshCalled \<notin> set evs))
   \<and> (available_asset_ids_last_updated self = None
        \<or> (\<exists>t. available_asset_ids_last_updated self = Some t
               \<and> datetime_now env h - t > ID_LIST_REFRESH_INTERVAL) \<longrightarrow>
       (\<exists>r self' evs.
          get_next_asset_id env (self, h) = (r, self', evs @ RefreshCalled # h1)
          \<and> RefreshCalled \<notin> set evs
          \<and> (\<forall>ids. refresh env h1 = Inr ids \<longrightarrow>
                self' = self\<lparr>cached_available_asset_ids := ids,
                             available_asset_ids_last_updated :=
                               Some (datetime_now env (RefreshCalled # h1))\<rparr>)
          \<and> (\<forall>e. refresh env h1 = Inl e \<longrightarrow> r = Inl e \<and> self' = self)))
   \<and> (\<forall>r1 self1 h'. get_next_asset_id env (self, h) = (Inr r1, self1, h') \<longrightarrow>
         (\<exists>t. available_asset_ids_last_updated self1 = Some t
             \<and> (datetime_now env h' - t \<le> ID_LIST_REFRESH_INTERVAL \<longrightarrow>
                  (\<exists>r2 evs. get_next_asset_id env (self1, h') = (r2, self1, evs @ h')
                            \<and> RefreshCalled \<notin> set evs))))"
proof (intro conjI allI impI)
  fix t
  assume "available_asset_ids_last_updated self = Some t
          \<and> datetime_now env h - t \<le> ID_LIST_REFRESH_INTERVAL"
  then show "\<exists>r evs. get_next_asset_id env (self, h) = (r, self, evs @ h) \<and> RefreshCalled \<notin> set evs"
    by (simp add: get_next_asset_id_fresh_run)
next
  assume "available_asset_ids_last_updated self = None
        \<or> (\<exists>t. available_asset_ids_last_updated self = Some t
               \<and> datetime_now env h - t > ID_LIST_REFRESH_INTERVAL)"
  from get_next_asset_id_stale_run [OF this assms]
  show "\<exists>r self' evs.
          get_next_asset_id env (self, h) = (r, self', evs @ RefreshCalled # h1)
          \<and> RefreshCalled \<notin> set evs
          \<and> (\<forall>ids. refresh env h1 = Inr ids \<longrightarrow>
                self' = self\<lparr>cached_available_asset_ids := ids,
                             available_asset_ids_last_updated :=
                               Some (datetime_now env (RefreshCalled # h1))\<rparr>)
          \<and> (\<forall>e. refresh env h1 = Inl e \<longrightarrow> r = Inl e \<and> self' = self)" .
next
  fix r1 self1 h'
  assume run: "get_next_asset_id env (self, h) = (Inr r1, self1, h')"
  from get_next_asset_id_stamps [OF run] obtain t where
    t: "available_asset_ids_last_updated self1 = Some t" by blast
  have "datetime_now env h' - t \<le> ID_LIST_REFRESH_INTERVAL \<longrightarrow>
          (\<exists>r2 evs. get_next_asset_id env (self1, h') = (r2, self1, evs @ h')
                            \<and> RefreshCalled \<notin> set evs)"
    using get_next_asset_id_fresh_run [OF t] by blast
  with t show "\<exists>t. available_asset_ids_last_updated self1 = Some t
             \<and> (datetime_now env h' - t \<le> ID_LIST_REFRESH_INTERVAL \<longrightarrow>
                  (\<exists>r2 evs. get_next_asset_id env (self1, h') = (r2, self1, evs @ h')
                            \<and> RefreshCalled \<notin> set evs))"
    by blast
qed

theorem get_next_asset_id_refresh_policy_witness:
  "(\<exists>r evs. get_next_asset_id demo_env (polled_entity, []) = (r, polled_entity, evs @ [])
            \<and> RefreshCalled \<notin> set evs)
   \<and> (\<exists>r self' evs. get_next_asset_id empty_env (new_entity, []) = (r, self', evs @ [RefreshCalled])
            \<and> RefreshCalled \<notin> set evs
            \<and> self' = new_entity\<lparr>cached_available_asset_ids := Some [],
                                   available_asset_ids_last_updated := Some 1000000\<rparr>)"
proof -
  have h1: "[ClockRead] = (if available_asset_ids_last_updated polled_entity = None then []
                           else ClockRead # [])"
    by (simp add: polled_entity_def)
  have fresh: "available_asset_ids_last_updated polled_entity = Some 0
               \<and> datetime_now demo_env [] - 0 \<le> ID_LIST_REFRESH_INTERVAL"
    by (simp add: polled_entity_def demo_env_def ID_LIST_REFRESH_INTERVAL_def)
  have h2: "[] = (if available_asset_ids_last_updated new_entity = None then []
                  else ClockRead # [])"
    by (simp add: new_entity_def)
  have stale: "available_asset_ids_last_updated new_entity = None
               \<or> (\<exists>t. available_asset_ids_last_updated new_entity = Some t
                      \<and> datetime_now empty_env [] - t > ID_LIST_REFRESH_INTERVAL)"
    by (simp add: new_entity_def)
  have res: "refresh empty_env [] = Inr (Some [])"
    by (simp add: empty_env_def demo_env_def)
  have now: "datetime_now empty_env [RefreshCalled] = 1000000"
    by (simp add: empty_env_def demo_env_def)
  from get_next_asset_id_refresh_policy [OF h1, of demo_env] fresh
  have a: "\<exists>r evs. get_next_asset_id demo_env (polled_entity, []) = (r, polled_entity, evs @ [])
            \<and> RefreshCalled \<notin> set evs"
    by blast
  from get_next_asset_id_refresh_policy [OF h2, of empty_env] stale
  obtain r self' evs where
    run: "get_next_asset_id empty_env (new_entity, []) = (r, self', evs @ [RefreshCalled])"
    and evs: "RefreshCalled \<notin> set evs"
    and upd: "\<forall>ids. refresh empty_env [] = Inr ids \<longrightarrow>
                self' = new_entity\<lparr>cached_available_asset_ids := ids,
                             available_asset_ids_last_updated :=
                               Some (datetime_now empty_env [RefreshCalled])\<rparr>"
    by blast
  from upd res now have "self' = new_entity\<lparr>cached_available_asset_ids := Some [],
                                   available_asset_ids_last_updated := Some 1000000\<rparr>"
    by simp
  with run evs a show ?thesis by blast
qed

subsection \<open>The selection\<close>

lemma get_next_asset_id_cases:
  obtains (raised) e h1 where "refresh env h1 = Inl e"
      and "\<And>rb. get_next_asset_id (env\<lparr>randbelow := rb\<rparr>) (self, h) = (Inl e, self, RefreshCalled # h1)"
  | (selected) \<sigma>1 where
      "\<And>rb. get_next_asset_id (env\<lparr>randbelow := rb\<rparr>) (self, h)
              = select_cached (env\<lparr>randbelow := rb\<rparr>) \<sigma>1"
proof (cases "available_asset_ids_last_updated self = None
          \<or> (\<exists>t. available_asset_ids_last_updated self = Some t
                 \<and> datetime_now env h - t > ID_LIST_REFRESH_INTERVAL)")
  case True
  define h1 where "h1 = (if available_asset_ids_last_updated self = None then h else ClockRead # h)"
  from True have stale: "available_asset_ids_last_updated self = None
          \<or> (\<exists>t. available_asset_ids_last_updated self = Some t
                 \<and> datetime_now (env\<lparr>randbelow := rb\<rparr>) h - t > ID_LIST_REFRESH_INTERVAL)" for rb
    by simp
  show ?thesis
  proof (cases "refresh env h1")
    case (Inl e)
    with get_next_asset_id_stale [OF stale h1_def]
    have "get_next_asset_id (env\<lparr>randbelow := rb\<rparr>) (self, h) = (Inl e, self, RefreshCalled # h1)" for rb
      by simp
    with Inl show ?thesis by (rule raised)
  next
    case (Inr ids)
    with get_next_asset_id_stale [OF stale h1_def]
    have "get_next_asset_id (env\<lparr>randbelow := rb\<rparr>) (self, h)
          = select_cached (env\<lparr>randbelow := rb\<rparr>)
              (self\<lparr>cached_available_asset_ids := ids,
                        available_asset_ids_last_updated :=
                          Some (datetime_now env (RefreshCalled # h1))\<rparr>,
                   ClockRead # RefreshCalled # h1)" for rb
      by simp
    then show ?thesis by (rule selected)
  qed
next
  case False
  then obtain t where t: "available_asset_ids_last_updated self = Some t"
    "datetime_now env h - t \<le> ID_LIST_REFRESH_INTERVAL"
    by (cases "available_asset_ids_last_updated self") auto
  from t(2) have "datetime_now (env\<lparr>randbelow := rb\<rparr>) h - t \<le> ID_LIST_REFRESH_INTERVAL" for rb
    by simp
  from get_next_asset_id_fresh [OF t(1) this]
  show ?thesis by (rule selected)
qed

lemma select_cached_pick:
  assumes "cached_available_asset_ids (fst \<sigma>) = Some ids" and "i < length ids"
  shows "fst (select_cached (env\<lparr>randbelow := \<lambda>h n. i\<rparr>) \<sigma>) = Inr (Some (ids ! i))"
  using assms by (auto simp: select_cached_def)

text \<open>
  C2. For every call of the get-next-asset-ID operation: the call raises only what the
  refresh capability raised; otherwise, if the cache after the call is absent or empty
  the result is null, and else the result is an element of the cached list; and every
  element of the cached list is the result for some draw of the random generator.
\<close>

theorem get_next_asset_id_result:
  assumes run: "get_next_asset_id env (self, h) = (r, self', h')"
  shows "(case r of
            Inl e \<Rightarrow> (\<exists>h1. refresh env h1 = Inl e) \<and> self' = self
          | Inr None \<Rightarrow> cached_available_asset_ids self' = None
                        \<or> cached_available_asset_ids self' = Some []
          | Inr (Some a) \<Rightarrow> \<exists>ids. cached_available_asset_ids self' = Some ids \<and> a \<in> set ids)
       \<and> ((\<forall>e. r \<noteq> Inl e) \<and> (cached_available_asset_ids self' = None
                                \<or> cached_available_asset_ids self' = Some [])
            \<longrightarrow> r = Inr None)
       \<and> (\<forall>ids a. (\<forall>e. r \<noteq> Inl e) \<and> cached_available_asset_ids self' = Some ids \<and> a \<in> set ids
            \<longrightarrow> (\<exists>rb. fst (get_next_asset_id (env\<lparr>randbelow := rb\<rparr>) (self, h)) = Inr (Some a)))"
proof (cases rule: get_next_asset_id_cases [of env self h])
  case (raised e h1)
  from raised(2) [of "randbelow env"] run have "r = Inl e" "self' = self"
    by simp_all
  with raised(1) show ?thesis by auto
next
  case (selected \<sigma>1)
  from selected [of "randbelow env"] run
  have sel: "select_cached env (fst \<sigma>1, snd \<sigma>1) = (r, self', h')"
    by simp
  note res = select_cached_result [OF sel]
  from res have self': "self' = fst \<sigma>1" by simp
  have one: "case r of
            Inl e \<Rightarrow> (\<exists>h1. refresh env h1 = Inl e) \<and> self' = self
          | Inr None \<Rightarrow> cached_available_asset_ids self' = None
                        \<or> cached_available_asset_ids self' = Some []
          | Inr (Some a) \<Rightarrow> \<exists>ids. cached_available_asset_ids self' = Some ids \<and> a \<in> set ids"
    using res by (auto split: option.splits if_splits)
  have two: "(\<forall>e. r \<noteq> Inl e) \<and> (cached_available_asset_ids self' = None
                                \<or> cached_available_asset_ids self' = Some [])
            \<longrightarrow> r = Inr None"
    using res by (auto split: option.splits if_splits)
  have three: "\<exists>rb. fst (get_next_asset_id (env\<lparr>randbelow := rb\<rparr>) (self, h)) = Inr (Some a)"
    if "cached_available_asset_ids self' = Some ids" and "a \<in> set ids" for ids a
  proof -
    from that(2) obtain i where i: "i < length ids" "ids ! i = a"
      by (auto simp: in_set_conv_nth)
    from that(1) self' have "cached_available_asset_ids (fst \<sigma>1) = Some ids" by simp
    from select_cached_pick [OF this i(1), of env] i(2) selected [of "\<lambda>h n. i"]
    have "fst (get_next_asset_id (env\<lparr>randbelow := \<lambda>h n. i\<rparr>) (self, h)) = Inr (Some a)"
      by simp
    then show ?thesis by (rule exI [where x = "\<lambda>h n. i"])
  qed
  from one two three show ?thesis by blast
qed

theorem get_next_asset_id_result_witness:
  "get_next_asset_id demo_env (new_entity, [])
     = (Inr (Some ''a''),
        new_entity\<lparr>cached_available_asset_ids := Some [''a'', ''b''],
                    available_asset_ids_last_updated := Some 1000000\<rparr>,
        [RandomChoice, ClockRead, RefreshCalled])
   \<and> (\<exists>rb. fst (get_next_asset_id (demo_env\<lparr>randbelow := rb\<rparr>) (new_entity, [])) = Inr (Some ''b''))"
proof -
  have run: "get_next_asset_id demo_env (new_entity, [])
     = (Inr (Some ''a''),
        new_entity\<lparr>cached_available_asset_ids := Some [''a'', ''b''],
                    available_asset_ids_last_updated := Some 1000000\<rparr>,
        [RandomChoice, ClockRead, RefreshCalled])"
    by (simp add: get_next_asset_id_def select_cached_def new_entity_def demo_env_def)
  from get_next_asset_id_result [OF run]
  have "\<exists>rb. fst (get_next_asset_id (demo_env\<lparr>randbelow := rb\<rparr>) (new_entity, [])) = Inr (Some ''b'')"
    by simp
  with run show ?thesis by blast
qed

lemma get_next_asset_id_display:
  "current_image_bytes (fst (snd (get_next_asset_id env \<sigma>))) = current_image_bytes (fst \<sigma>)
   \<and> attr_extra_state_attributes (fst (snd (get_next_asset_id env \<sigma>)))
       = attr_extra_state_attributes (fst \<sigma>)
   \<and> attr_image_last_updated (fst (snd (get_next_asset_id env \<sigma>)))
       = attr_image_last_updated (fst \<sigma>)"
  by (simp add: get_next_asset_id_def Let_def select_cached_self split: sum.splits option.splits)

lemma select_cached_events:
  "\<exists>evs. snd (snd (select_cached env \<sigma>)) = evs @ snd \<sigma> \<and> StateWritten \<notin> set evs"
  by (simp add: select_cached_def split: option.splits)

lemma get_next_asset_id_events:
  "\<exists>evs. snd (snd (get_next_asset_id env \<sigma>)) = evs @ snd \<sigma> \<and> StateWritten \<notin> set evs"
proof -
  have sel: "\<exists>evs. snd (snd (select_cached env (s, pre @ snd \<sigma>))) = evs @ snd \<sigma>
                  \<and> StateWritten \<notin> set evs"
    if "StateWritten \<notin> set pre" for s pre
  proof -
    from select_cached_events [of env "(s, pre @ snd \<sigma>)"] obtain evs where
      "snd (snd (select_cached env (s, pre @ snd \<sigma>))) = (evs @ pre) @ snd \<sigma>"
      "StateWritten \<notin> set evs" by auto
    with that show ?thesis by (metis Un_iff set_append)
  qed
  have pre: "StateWritten \<notin> set [ClockRead]" "StateWritten \<notin> set [ClockRead, RefreshCalled]"
    "StateWritten \<notin> set [ClockRead, RefreshCalled, ClockRead]" "StateWritten \<notin> set []"
    "StateWritten \<notin> set [RefreshCalled]" "StateWritten \<notin> set [RefreshCalled, ClockRead]"
    by simp_all
  show ?thesis
    using sel [OF pre(1)] sel [OF pre(2)] sel [OF pre(3)] sel [OF pre(4)]
    by (cases "available_asset_ids_last_updated (fst \<sigma>)")
       (auto simp: get_next_asset_id_def Let_def split: sum.splits
             intro: exI [of _ "[RefreshCalled]"] exI [of _ "[RefreshCalled, ClockRead]"])
qed

text \<open>
  C7. Whenever the get-next-asset-ID operation yields null, the update operation
  returns without raising, in the state that the get-next-asset-ID operation left: the
  cached image bytes, the attribute mapping and the image timestamp are those from
  before the update, and no state change is written to the host.
\<close>

theorem load_and_cache_next_image_no_asset:
  assumes "fst (get_next_asset_id env \<sigma>) = Inr None"
  shows "load_and_cache_next_image env \<sigma> = Some (Inr (), snd (get_next_asset_id env \<sigma>))
       \<and> current_image_bytes (fst (snd (get_next_asset_id env \<sigma>))) = current_image_bytes (fst \<sigma>)
       \<and> attr_extra_state_attributes (fst (snd (get_next_asset_id env \<sigma>)))
           = attr_extra_state_attributes (fst \<sigma>)
       \<and> attr_image_last_updated (fst (snd (get_next_asset_id env \<sigma>)))
           = attr_image_last_updated (fst \<sigma>)
       \<and> (\<exists>evs. snd (snd (get_next_asset_id env \<sigma>)) = evs @ snd \<sigma> \<and> StateWritten \<notin> set evs)"
proof -
  from assms have "loop_body env \<sigma> = (Returned, snd (get_next_asset_id env \<sigma>))"
    by (cases "get_next_asset_id env \<sigma>") (simp add: loop_body_def)
  then have "load_and_cache_next_image env \<sigma> = Some (Inr (), snd (get_next_asset_id env \<sigma>))"
    by (subst load_and_cache_next_image.simps) simp
  with get_next_asset_id_display [of env \<sigma>] get_next_asset_id_events [of env \<sigma>]
  show ?thesis by simp
qed

theorem load_and_cache_next_image_no_asset_witness:
  "fst (get_next_asset_id empty_env (new_entity, [])) = Inr None
   \<and> load_and_cache_next_image empty_env (new_entity, [])
       = Some (Inr (), new_entity\<lparr>cached_available_asset_ids := Some [],
                                   available_asset_ids_last_updated := Some 1000000\<rparr>,
               [ClockRead, RefreshCalled])"
proof -
  have run: "get_next_asset_id empty_env (new_entity, [])
               = (Inr None, new_entity\<lparr>cached_available_asset_ids := Some [],
                                   available_asset_ids_last_updated := Some 1000000\<rparr>,
               [ClockRead, RefreshCalled])"
    by (simp add: get_next_asset_id_def select_cached_def new_entity_def empty_env_def demo_env_def)
  then have none: "fst (get_next_asset_id empty_env (new_entity, [])) = Inr None"
    by simp
  from load_and_cache_next_image_no_asset [OF none] run none show ?thesis
    by simp
qed

subsection \<open>The retry loop\<close>

lemma select_cached_quiet:
  "\<exists>evs. snd (snd (select_cached env \<sigma>)) = evs @ snd \<sigma> \<and> set evs \<subseteq> {RandomChoice}"
  by (simp add: select_cached_def split: option.splits)

lemma get_next_asset_id_quiet:
  "\<exists>evs. snd (snd (get_next_asset_id env \<sigma>)) = evs @ snd \<sigma>
         \<and> set evs \<subseteq> {ClockRead, RefreshCalled, RandomChoice}"
proof -
  have sel: "\<exists>evs. snd (snd (select_cached env (s, pre @ snd \<sigma>))) = evs @ snd \<sigma>
                  \<and> set evs \<subseteq> {ClockRead, RefreshCalled, RandomChoice}"
    if "set pre \<subseteq> {ClockRead, RefreshCalled, RandomChoice}" for s pre
  proof -
    from select_cached_quiet [of env "(s, pre @ snd \<sigma>)"] obtain evs where
      "snd (snd (select_cached env (s, pre @ snd \<sigma>))) = (evs @ pre) @ snd \<sigma>"
      "set evs \<subseteq> {RandomChoice}" by auto
    moreover from this(2) that have "set (evs @ pre) \<subseteq> {ClockRead, RefreshCalled, RandomChoice}"
      by auto
    ultimately show ?thesis by blast
  qed
  have raised: "\<exists>evs. RefreshCalled # pre @ snd \<sigma> = evs @ snd \<sigma>
                  \<and> set evs \<subseteq> {ClockRead, RefreshCalled, RandomChoice}"
    if "set pre \<subseteq> {ClockRead, RefreshCalled, RandomChoice}" for pre
    using that by (intro exI [of _ "RefreshCalled # pre"]) simp
  show ?thesis
    using sel [of "[ClockRead]"] sel [of "[ClockRead, RefreshCalled]"]
      sel [of "[ClockRead, RefreshCalled, ClockRead]"] sel [of "[]"]
      raised [of "[]"] raised [of "[ClockRead]"]
    by (cases "available_asset_ids_last_updated (fst \<sigma>)")
       (simp_all add: get_next_asset_id_def Let_def split: sum.splits)
qed


lemma select_cached_stocked:
  assumes "cached_available_asset_ids self = Some ids" "ids \<noteq> []" "[] \<notin> set ids"
  shows "\<exists>a. fst (select_cached env (self, h)) = Inr (Some a) \<and> a \<noteq> []"
proof -
  from assms(2) have "randbelow env h (length ids) mod length ids < length ids" by simp
  then have "ids ! (randbelow env h (length ids) mod length ids) \<in> set ids" by (rule nth_mem)
  with assms(3) have "ids ! (randbelow env h (length ids) mod length ids) \<noteq> []" by metis
  with assms(1,2) show ?thesis by (simp add: select_cached_def)
qed

lemma get_next_asset_id_stocked:
  assumes pool: "\<forall>h. \<exists>ids. refresh env h = Inr (Some ids) \<and> ids \<noteq> [] \<and> [] \<notin> set ids"
    and cache: "stocked self"
  shows "\<exists>a. fst (get_next_asset_id env (self, h)) = Inr (Some a) \<and> a \<noteq> []
             \<and> stocked (fst (snd (get_next_asset_id env (self, h))))"
proof (cases "available_asset_ids_last_updated self = None
          \<or> (\<exists>t. available_asset_ids_last_updated self = Some t
                 \<and> datetime_now env h - t > ID_LIST_REFRESH_INTERVAL)")
  case True
  define h1 where "h1 = (if available_asset_ids_last_updated self = None then h else ClockRead # h)"
  from pool obtain ids where ids: "refresh env h1 = Inr (Some ids)" "ids \<noteq> []" "[] \<notin> set ids"
    by blast
  let ?s = "self\<lparr>cached_available_asset_ids := Some ids,
                   available_asset_ids_last_updated := Some (datetime_now env (RefreshCalled # h1))\<rparr>"
  from get_next_asset_id_stale [OF True h1_def] ids(1)
  have eq: "get_next_asset_id env (self, h) = select_cached env (?s, ClockRead # RefreshCalled # h1)"
    by simp
  have c: "cached_available_asset_ids ?s = Some ids" by simp
  from select_cached_stocked [OF c ids(2,3)] eq
  obtain a where "fst (get_next_asset_id env (self, h)) = Inr (Some a)" "a \<noteq> []" by auto
  moreover from eq have "fst (snd (get_next_asset_id env (self, h))) = ?s"
    by (simp add: select_cached_self)
  moreover from ids(2,3) have "stocked ?s" by (simp add: stocked_def)
  ultimately show ?thesis by simp
next
  case False
  then obtain t where t: "available_asset_ids_last_updated self = Some t"
    "datetime_now env h - t \<le> ID_LIST_REFRESH_INTERVAL"
    by (cases "available_asset_ids_last_updated self") auto
  from cache t(1) obtain ids where
    ids: "cached_available_asset_ids self = Some ids" "ids \<noteq> []" "[] \<notin> set ids"
    by (auto simp: stocked_def)
  note eq = get_next_asset_id_fresh [OF t]
  from select_cached_stocked [OF ids] eq
  obtain a where "fst (get_next_asset_id env (self, h)) = Inr (Some a)" "a \<noteq> []" by auto
  moreover from eq have "fst (snd (get_next_asset_id env (self, h))) = self"
    by (simp add: select_cached_self)
  ultimately show ?thesis using cache by simp
qed

lemma loop_body_retry:
  assumes pool: "\<forall>h. \<exists>ids. refresh env h = Inr (Some ids) \<and> ids \<noteq> [] \<and> [] \<notin> set ids"
    and cache: "stocked self"
    and nobytes: "\<forall>h a. download_asset (original env h a) = Inr None
                       \<or> download_asset (original env h a) = Inr (Some [])"
  shows "\<exists>a evs. loop_body env (self, h)
                   = (Retry, fst (snd (get_next_asset_id env (self, h))),
                      Slept 1 # DownloadCalled a # evs @ h)
               \<and> set evs \<subseteq> {ClockRead, RefreshCalled, RandomChoice}
               \<and> stocked (fst (snd (get_next_asset_id env (self, h))))"
proof -
  from get_next_asset_id_stocked [OF pool cache, of h] obtain a where
    a: "fst (get_next_asset_id env (self, h)) = Inr (Some a)" "a \<noteq> []"
    and st: "stocked (fst (snd (get_next_asset_id env (self, h))))" by blast
  from get_next_asset_id_quiet [of env "(self, h)"] obtain evs where
    evs: "snd (snd (get_next_asset_id env (self, h))) = evs @ h"
      "set evs \<subseteq> {ClockRead, RefreshCalled, RandomChoice}" by auto
  obtain r s1 h1 where g: "get_next_asset_id env (self, h) = (r, s1, h1)"
    by (cases "get_next_asset_id env (self, h)") auto
  with a evs have g': "r = Inr (Some a)" "h1 = evs @ h" by simp_all
  from nobytes have "download_asset (original env h1 a) = Inr None
                       \<or> download_asset (original env h1 a) = Inr (Some [])" by blast
  with g g' a(2) have "loop_body env (self, h) = (Retry, s1, Slept 1 # DownloadCalled a # evs @ h)"
    by (auto simp: loop_body_def)
  with g evs(2) st show ?thesis by auto
qed

lemma passes_retry:
  assumes pool: "\<forall>h. \<exists>ids. refresh env h = Inr (Some ids) \<and> ids \<noteq> [] \<and> [] \<notin> set ids"
    and nobytes: "\<forall>h a. download_asset (original env h a) = Inr None
                       \<or> download_asset (original env h a) = Inr (Some [])"
  shows "stocked self \<Longrightarrow>
         \<exists>self' h'. passes n env (self, h) = (Retry, self', h')
           \<and> current_image_bytes self' = current_image_bytes self
           \<and> attr_extra_state_attributes self' = attr_extra_state_attributes self
           \<and> attr_image_last_updated self' = attr_image_last_updated self
           \<and> length (filter (\<lambda>e. e = Slept 1) h') = length (filter (\<lambda>e. e = Slept 1) h) + n
           \<and> length (filter (\<lambda>e. \<exists>d. e = Slept d) h') = length (filter (\<lambda>e. \<exists>d. e = Slept d) h) + n
           \<and> length (filter (\<lambda>e. \<exists>a. e = DownloadCalled a) h')
               = length (filter (\<lambda>e. \<exists>a. e = DownloadCalled a) h) + n
           \<and> (0 < n \<longrightarrow> hd h' = Slept 1)
           \<and> (StateWritten \<in> set h' \<longrightarrow> StateWritten \<in> set h)"
proof (induction n arbitrary: self h)
  case 0
  then show ?case by simp
next
  case (Suc n)
  let ?s1 = "fst (snd (get_next_asset_id env (self, h)))"
  from loop_body_retry [OF pool Suc.prems nobytes, of h] obtain a evs where
    body: "loop_body env (self, h) = (Retry, ?s1, Slept 1 # DownloadCalled a # evs @ h)"
    and evs: "set evs \<subseteq> {ClockRead, RefreshCalled, RandomChoice}"
    and st: "stocked ?s1" by blast
  let ?h1 = "Slept 1 # DownloadCalled a # evs @ h"
  from evs have f1: "filter (\<lambda>e. e = Slept 1) evs = []"
    and f2: "filter (\<lambda>e. \<exists>d. e = Slept d) evs = []"
    and f3: "filter (\<lambda>e. \<exists>a. e = DownloadCalled a) evs = []"
    and f4: "StateWritten \<notin> set evs"
    by (auto simp: filter_empty_conv)
  from Suc.IH [OF st, of ?h1] obtain self' h' where
    ih: "passes n env (?s1, ?h1) = (Retry, self', h')"
      "current_image_bytes self' = current_image_bytes ?s1"
      "attr_extra_state_attributes self' = attr_extra_state_attributes ?s1"
      "attr_image_last_updated self' = attr_image_last_updated ?s1"
      "length (filter (\<lambda>e. e = Slept 1) h') = length (filter (\<lambda>e. e = Slept 1) ?h1) + n"
      "length (filter (\<lambda>e. \<exists>d. e = Slept d) h') = length (filter (\<lambda>e. \<exists>d. e = Slept d) ?h1) + n"
      "length (filter (\<lambda>e. \<exists>a. e = DownloadCalled a) h')
               = length (filter (\<lambda>e. \<exists>a. e = DownloadCalled a) ?h1) + n"
      "0 < n \<longrightarrow> hd h' = Slept 1"
      "StateWritten \<in> set h' \<longrightarrow> StateWritten \<in> set ?h1"
    by blast
  from body ih(1) have run: "passes (Suc n) env (self, h) = (Retry, self', h')" by simp
  from ih(2,3,4) get_next_asset_id_display [of env "(self, h)"]
  have disp: "current_image_bytes self' = current_image_bytes self"
    "attr_extra_state_attributes self' = attr_extra_state_attributes self"
    "attr_image_last_updated self' = attr_image_last_updated self" by simp_all
  from ih(5) f1 have c1: "length (filter (\<lambda>e. e = Slept 1) h')
                           = length (filter (\<lambda>e. e = Slept 1) h) + Suc n" by simp
  from ih(6) f2 have c2: "length (filter (\<lambda>e. \<exists>d. e = Slept d) h')
                           = length (filter (\<lambda>e. \<exists>d. e = Slept d) h) + Suc n" by simp
  from ih(7) f3 have c3: "length (filter (\<lambda>e. \<exists>a. e = DownloadCalled a) h')
                           = length (filter (\<lambda>e. \<exists>a. e = DownloadCalled a) h) + Suc n" by simp
  have c4: "hd h' = Slept 1"
  proof (cases n)
    case 0
    with ih(1) show ?thesis by auto
  next
    case (Suc m)
    with ih(8) show ?thesis by simp
  qed
  from ih(9) f4 have c5: "StateWritten \<in> set h' \<longrightarrow> StateWritten \<in> set h" by simp
  from run disp c1 c2 c3 c4 c5 show ?case by blast
qed

lemma load_and_cache_next_image_diverges:
  assumes pool: "\<forall>h. \<exists>ids. refresh env h = Inr (Some ids) \<and> ids \<noteq> [] \<and> [] \<notin> set ids"
    and nobytes: "\<forall>h a. download_asset (original env h a) = Inr None
                       \<or> download_asset (original env h a) = Inr (Some [])"
    and cache: "stocked (fst \<sigma>)"
  shows "load_and_cache_next_image env \<sigma> = None"
proof (rule ccontr)
  assume "load_and_cache_next_image env \<sigma> \<noteq> None"
  then obtain y where y: "load_and_cache_next_image env \<sigma> = Some y" by blast
  have "(\<forall>h. \<exists>ids. refresh env h = Inr (Some ids) \<and> ids \<noteq> [] \<and> [] \<notin> set ids)
        \<and> (\<forall>h a. download_asset (original env h a) = Inr None
                       \<or> download_asset (original env h a) = Inr (Some []))
        \<longrightarrow> \<not> stocked (fst \<sigma>)"
    using y
  proof (induction rule: load_and_cache_next_image.raw_induct [rotated 1, consumes 1, case_names step])
    case (step load env \<sigma> y)
    show ?case
    proof (intro impI notI)
      assume hyp: "(\<forall>h. \<exists>ids. refresh env h = Inr (Some ids) \<and> ids \<noteq> [] \<and> [] \<notin> set ids)
        \<and> (\<forall>h a. download_asset (original env h a) = Inr None
                       \<or> download_asset (original env h a) = Inr (Some []))"
        and st: "stocked (fst \<sigma>)"
      from hyp have p: "\<forall>h. \<exists>ids. refresh env h = Inr (Some ids) \<and> ids \<noteq> [] \<and> [] \<notin> set ids"
        and nb: "\<forall>h a. download_asset (original env h a) = Inr None
                       \<or> download_asset (original env h a) = Inr (Some [])" by blast+
      from loop_body_retry [OF p _ nb, of "fst \<sigma>" "snd \<sigma>"] st
      obtain \<sigma>' where body: "loop_body env \<sigma> = (Retry, \<sigma>')" and st': "stocked (fst \<sigma>')"
        by auto
      from step(2) body have "load env \<sigma>' = Some y" by simp
      from step(1) [OF this] hyp st' show False by blast
    qed
  qed
  with assms show False by blast
qed

lemma load_after_passes:
  "load_and_cache_next_image env \<sigma> =
     (case fst (passes n env \<sigma>) of
        Raised e \<Rightarrow> Some (Inl e, snd (passes n env \<sigma>))
      | Returned \<Rightarrow> Some (Inr (), snd (passes n env \<sigma>))
      | Retry \<Rightarrow> load_and_cache_next_image env (snd (passes n env \<sigma>)))"
proof (induction n arbitrary: \<sigma>)
  case 0
  show ?case by simp
next
  case (Suc n)
  have unfold: "load_and_cache_next_image env \<sigma> =
     (case fst (loop_body env \<sigma>) of
        Raised e \<Rightarrow> Some (Inl e, snd (loop_body env \<sigma>))
      | Returned \<Rightarrow> Some (Inr (), snd (loop_body env \<sigma>))
      | Retry \<Rightarrow> load_and_cache_next_image env (snd (loop_body env \<sigma>)))"
    by (rule load_and_cache_next_image.simps)
  show ?case
  proof (cases "fst (loop_body env \<sigma>)")
    case (Raised e)
    then have step: "passes (Suc n) env \<sigma> = loop_body env \<sigma>" by simp
    from unfold Raised show ?thesis unfolding step by simp
  next
    case Returned
    then have step: "passes (Suc n) env \<sigma> = loop_body env \<sigma>" by simp
    from unfold Returned show ?thesis unfolding step by simp
  next
    case Retry
    with unfold have "load_and_cache_next_image env \<sigma>
                       = load_and_cache_next_image env (snd (loop_body env \<sigma>))" by simp
    also note Suc.IH [of "snd (loop_body env \<sigma>)"]
    finally have eq: "load_and_cache_next_image env \<sigma> =
      (case fst (passes n env (snd (loop_body env \<sigma>))) of
         Raised e \<Rightarrow> Some (Inl e, snd (passes n env (snd (loop_body env \<sigma>))))
       | Returned \<Rightarrow> Some (Inr (), snd (passes n env (snd (loop_body env \<sigma>))))
       | Retry \<Rightarrow> load_and_cache_next_image env (snd (passes n env (snd (loop_body env \<sigma>)))))" .
    from Retry have step: "passes (Suc n) env \<sigma> = passes n env (snd (loop_body env \<sigma>))"
      by simp
    from eq show ?thesis unfolding step .
  qed
qed

text \<open>
  C8, as amended. Assume that every refresh returns a non-empty list of non-empty asset
  IDs, that the cache, if it was ever filled, holds such a list, and that every download
  returns no bytes (null or the empty byte string). Then the update operation does not
  return (so it neither raises nor completes); after any number \<open>n\<close> of passes through
  its loop the loop is still running and the operation goes on from the state reached,
  in which the cached image bytes, the attribute mapping and the image timestamp are
  unchanged, no state change has been written to the host, and exactly \<open>n\<close> downloads
  and \<open>n\<close> sleeps have been added, every sleep lasting one second and a sleep ending
  every pass. The operation is the iteration of the passes: in every environment and
  state, it returns what the pass that leaves the loop returns, and otherwise goes on
  from the state after the passes made so far.
\<close>

theorem load_and_cache_next_image_retries_forever:
  assumes pool: "\<forall>h. \<exists>ids. refresh env h = Inr (Some ids) \<and> ids \<noteq> [] \<and> [] \<notin> set ids"
    and cache: "available_asset_ids_last_updated self = None
                \<or> (\<exists>ids. cached_available_asset_ids self = Some ids \<and> ids \<noteq> [] \<and> [] \<notin> set ids)"
    and nobytes: "\<forall>h a. download_asset (original env h a) = Inr None
                       \<or> download_asset (original env h a) = Inr (Some [])"
  shows "load_and_cache_next_image env (self, h) = None
       \<and> (\<forall>n. \<exists>self' h'. passes n env (self, h) = (Retry, self', h')
             \<and> load_and_cache_next_image env (self, h) = load_and_cache_next_image env (self', h')
             \<and> current_image_bytes self' = current_image_bytes self
             \<and> attr_extra_state_attributes self' = attr_extra_state_attributes self
             \<and> attr_image_last_updated self' = attr_image_last_updated self
             \<and> length (filter (\<lambda>e. e = Slept 1) h') = length (filter (\<lambda>e. e = Slept 1) h) + n
             \<and> length (filter (\<lambda>e. \<exists>d. e = Slept d) h')
                 = length (filter (\<lambda>e. \<exists>d. e = Slept d) h) + n
             \<and> length (filter (\<lambda>e. \<exists>a. e = DownloadCalled a) h')
                 = length (filter (\<lambda>e. \<exists>a. e = DownloadCalled a) h) + n
             \<and> (0 < n \<longrightarrow> hd h' = Slept 1)
             \<and> (StateWritten \<in> set h' \<longrightarrow> StateWritten \<in> set h))
       \<and> (\<forall>n env' \<sigma>'.
             load_and_cache_next_image env' \<sigma>' =
               (case fst (passes n env' \<sigma>') of
                  Raised e \<Rightarrow> Some (Inl e, snd (passes n env' \<sigma>'))
                | Returned \<Rightarrow> Some (Inr (), snd (passes n env' \<sigma>'))
                | Retry \<Rightarrow> load_and_cache_next_image env' (snd (passes n env' \<sigma>'))))"
proof -
  from cache have st: "stocked self" by (simp add: stocked_def)
  then have "stocked (fst (self, h))" by simp
  from load_and_cache_next_image_diverges [OF pool nobytes this]
  have div: "load_and_cache_next_image env (self, h) = None" .
  have run: "\<exists>self' h'. passes n env (self, h) = (Retry, self', h')
             \<and> load_and_cache_next_image env (self, h) = load_and_cache_next_image env (self', h')
             \<and> current_image_bytes self' = current_image_bytes self
             \<and> attr_extra_state_attributes self' = attr_extra_state_attributes self
             \<and> attr_image_last_updated self' = attr_image_last_updated self
             \<and> length (filter (\<lambda>e. e = Slept 1) h') = length (filter (\<lambda>e. e = Slept 1) h) + n
             \<and> length (filter (\<lambda>e. \<exists>d. e = Slept d) h')
                 = length (filter (\<lambda>e. \<exists>d. e = Slept d) h) + n
             \<and> length (filter (\<lambda>e. \<exists>a. e = DownloadCalled a) h')
                 = length (filter (\<lambda>e. \<exists>a. e = DownloadCalled a) h) + n
             \<and> (0 < n \<longrightarrow> hd h' = Slept 1)
             \<and> (StateWritten \<in> set h' \<longrightarrow> StateWritten \<in> set h)" for n
  proof -
    from passes_retry [OF pool nobytes st, of n h] obtain self' h' where
      p: "passes n env (self, h) = (Retry, self', h')"
      and rest: "current_image_bytes self' = current_image_bytes self
             \<and> attr_extra_state_attributes self' = attr_extra_state_attributes self
             \<and> attr_image_last_updated self' = attr_image_last_updated self
             \<and> length (filter (\<lambda>e. e = Slept 1) h') = length (filter (\<lambda>e. e = Slept 1) h) + n
             \<and> length (filter (\<lambda>e. \<exists>d. e = Slept d) h')
                 = length (filter (\<lambda>e. \<exists>d. e = Slept d) h) + n
             \<and> length (filter (\<lambda>e. \<exists>a. e = DownloadCalled a) h')
                 = length (filter (\<lambda>e. \<exists>a. e = DownloadCalled a) h) + n
             \<and> (0 < n \<longrightarrow> hd h' = Slept 1)
             \<and> (StateWritten \<in> set h' \<longrightarrow> StateWritten \<in> set h)"
      by blast
    from load_after_passes [of env "(self, h)" n] p
    have "load_and_cache_next_image env (self, h) = load_and_cache_next_image env (self', h')"
      by simp
    with p rest show ?thesis by blast
  qed
  from div run load_after_passes show ?thesis by blast
qed

theorem load_and_cache_next_image_retries_forever_witness:
  "load_and_cache_next_image unavailable_env (new_entity, []) = None
   \<and> (\<exists>self' h'. passes 3 unavailable_env (new_entity, []) = (Retry, self', h')
         \<and> current_image_bytes self' = None
         \<and> length (filter (\<lambda>e. e = Slept 1) h') = 3
         \<and> hd h' = Slept 1)"
proof -
  have pool: "\<forall>h. \<exists>ids. refresh unavailable_env h = Inr (Some ids) \<and> ids \<noteq> [] \<and> [] \<notin> set ids"
    by (simp add: unavailable_env_def demo_env_def)
  have cache: "available_asset_ids_last_updated new_entity = None
                \<or> (\<exists>ids. cached_available_asset_ids new_entity = Some ids \<and> ids \<noteq> []
                          \<and> [] \<notin> set ids)"
    by (simp add: new_entity_def)
  have nobytes: "\<forall>h a. download_asset (original unavailable_env h a) = Inr None
                       \<or> download_asset (original unavailable_env h a) = Inr (Some [])"
    by (simp add: unavailable_env_def demo_env_def download_asset_def)
  have none: "current_image_bytes new_entity = None"
    by (simp add: new_entity_def)
  note T = load_and_cache_next_image_retries_forever [OF pool cache nobytes, of "[]"]
  from T have d: "load_and_cache_next_image unavailable_env (new_entity, []) = None"
    by (rule conjunct1)
  from T [THEN conjunct2, THEN conjunct1, THEN spec, of 3] obtain self' h' where
    "passes 3 unavailable_env (new_entity, []) = (Retry, self', h')"
    "current_image_bytes self' = current_image_bytes new_entity"
    "length (filter (\<lambda>e. e = Slept 1) h') = length (filter (\<lambda>e. e = Slept 1) []) + 3"
    "0 < (3::nat) \<longrightarrow> hd h' = Slept 1"
    by (elim exE conjE)
  with none have "passes 3 unavailable_env (new_entity, []) = (Retry, self', h')
         \<and> current_image_bytes self' = None
         \<and> length (filter (\<lambda>e. e = Slept 1) h') = 3
         \<and> hd h' = Slept 1"
    by simp
  with d show ?thesis by blast
qed

text \<open>
  C8 as stated fails when the pool holds the empty string: the pool is not empty and no
  download returns bytes, yet \<open>if not asset_id\<close> lets the operation return at once.
\<close>

theorem load_and_cache_next_image_blank_id_counterexample:
  "refresh blank_id_env [] = Inr (Some [[]])
   \<and> download_asset (original blank_id_env [] []) = Inr None
   \<and> load_and_cache_next_image blank_id_env (new_entity, [])
       = Some (Inr (),
               new_entity\<lparr>cached_available_asset_ids := Some [[]],
                           available_asset_ids_last_updated := Some 1000000\<rparr>,
               [RandomChoice, ClockRead, RefreshCalled])"
proof -
  have body: "loop_body blank_id_env (new_entity, [])
       = (Returned,
               new_entity\<lparr>cached_available_asset_ids := Some [[]],
                           available_asset_ids_last_updated := Some 1000000\<rparr>,
               [RandomChoice, ClockRead, RefreshCalled])"
    by (simp add: blank_id_env_def unavailable_env_def demo_env_def loop_body_def
          get_next_asset_id_def select_cached_def new_entity_def)
  have "load_and_cache_next_image blank_id_env (new_entity, [])
       = Some (Inr (),
               new_entity\<lparr>cached_available_asset_ids := Some [[]],
                           available_asset_ids_last_updated := Some 1000000\<rparr>,
               [RandomChoice, ClockRead, RefreshCalled])"
    by (subst load_and_cache_next_image.simps) (simp add: body)
  moreover have "refresh blank_id_env [] = Inr (Some [[]])"
    by (simp add: blank_id_env_def)
  moreover have "download_asset (original blank_id_env [] []) = Inr None"
    by (simp add: blank_id_env_def unavailable_env_def download_asset_def)
  ultimately show ?thesis by blast
qed

subsection \<open>The asset metadata\<close>

lemma set_attribute_raises:
  "set_attribute asset_info attr key attrs = Inl e \<Longrightarrow> e = AttributeError \<and> \<not> is_dict asset_info"
  by (cases asset_info) (simp_all add: set_attribute_def)









end
